theory Spec2Isabelle
  imports Main "HOL-Library.Word" "HOL-Library.Sublist"
begin

section \<open>The chain RPC client of fnowallet (package chain)\<close>

text \<open>
  The development embeds the persistent notification client of package \<open>chain\<close>
  (type \<open>RPCClient\<close>): its constructor, \<open>Start\<close>, \<open>Stop\<close>, the seven notification
  callbacks and the two dispatch loops \<open>handler\<close> and \<open>handlerVoting\<close>.

  Conventions of the embedding.
  \<^item> A \<open>[]byte\<close> is a list of 8-bit words. A \<open>chainhash.Hash\<close> is a byte array; a pointer
    to a hash is modelled by the hash it points to.
  \<^item> \<open>int64\<close>, \<open>int32\<close> and \<open>uint32\<close> values are words of that width.
  \<^item> A Go channel that is closed at most once is a record with a \<open>closed\<close> flag;
    \<open>close\<close> on a closed channel panics, which is a value of the model.
  \<^item> The goroutines are interleaved: every \<open>select\<close> case that the code can take is one
    atomic step of the client, chosen by the schedule.
\<close>

subsection \<open>Basic data\<close>

type_synonym bytes = "8 word list"
type_synonym hash = "8 word list"
type_synonym int64 = "64 word"
type_synonym int32 = "32 word"
type_synonym uint32 = "32 word"

text \<open>
  The struct \<open>semver\<close> is declared in a file of package \<open>chain\<close> that is not among the
  sources; its three fields are read off the composite literals in \<open>Start\<close>, and their
  type is the one of the fields of the RPC \<open>VersionResult\<close> they are copied from.
\<close>

record semver =
  major :: uint32
  minor :: uint32
  patch :: uint32

text \<open>\<open>var requiredChainServerAPI = semver{major: 5, minor: 0, patch: 0}\<close>\<close>

definition requiredChainServerAPI :: semver where
  "requiredChainServerAPI = \<lparr>major = 5, minor = 0, patch = 0\<rparr>"

text \<open>The zero value of \<open>semver\<close>, which \<open>var serverAPI semver\<close> declares.\<close>

definition semver_zero :: semver where
  "semver_zero = \<lparr>major = 0, minor = 0, patch = 0\<rparr>"

text \<open>
  Modelled from the spec: "advertised version \<ge> the hard-coded minimum" is the order of
  semantic versions, lexicographic on major, minor, patch (unsigned comparison).
\<close>

definition semver_le :: "semver \<Rightarrow> semver \<Rightarrow> bool" where
  "semver_le a b \<longleftrightarrow>
     major a < major b \<or>
     (major a = major b \<and> (minor a < minor b \<or> (minor a = minor b \<and> patch a \<le> patch b)))"

text \<open>
  Modelled from the spec: the function \<open>semverCompatible\<close> of package \<open>chain\<close>, which
  \<open>Start\<close> calls, is not among the sources. The specification describes it as
  "same major version, server's advertised version \<ge> the hard-coded minimum".
\<close>

definition semverCompatible :: "semver \<Rightarrow> semver \<Rightarrow> bool" where
  "semverCompatible required actual \<longleftrightarrow>
     major required = major actual \<and> semver_le required actual"

subsection \<open>Notifications\<close>

text \<open>
  The seven notification structs, one constructor each, with the fields in the order of
  the source. The type parameter \<open>'tx\<close> stands for \<open>*wire.MsgTx\<close>, a decoded
  transaction of the external wire package.
\<close>

datatype 'tx notification =
    blockConnected bytes "bytes list"
  | blockDisconnected bytes
  | relevantTxAccepted 'tx
  | reorganization hash int64 hash int64
  | winningTickets hash int64 "hash list"
  | missedTickets hash int64 "hash list"
  | stakeDifficulty hash int64 int64

text \<open>The two intake channels a callback can send on.\<close>

datatype intake = EnqueueNotification | EnqueueVotingNotification

text \<open>
  Every callback ends in \<open>select { case c.enqueue... <- n: case <-c.quit: }\<close> or returns
  before it. The functions below compute the send the callback attempts: the intake
  channel and the value, or \<open>None\<close> when the callback returns without a \<open>select\<close>.
  The \<open>select\<close> itself is a step of the client (see \<open>step\<close> below).
\<close>

definition onBlockConnected :: "bytes \<Rightarrow> bytes list \<Rightarrow> (intake \<times> 'tx notification) option" where
  "onBlockConnected header transactions =
     Some (EnqueueNotification, blockConnected header transactions)"

definition onBlockDisconnected :: "bytes \<Rightarrow> (intake \<times> 'tx notification) option" where
  "onBlockDisconnected header = Some (EnqueueNotification, blockDisconnected header)"

text \<open>
  \<open>msgTx.Deserialize\<close> belongs to the external wire package and is a parameter:
  \<open>None\<close> is its error return.
\<close>

definition onRelevantTxAccepted ::
  "(bytes \<Rightarrow> 'tx option) \<Rightarrow> bytes \<Rightarrow> (intake \<times> 'tx notification) option" where
  "onRelevantTxAccepted Deserialize transaction =
     (case Deserialize transaction of
        None \<Rightarrow> None
      | Some msgTx \<Rightarrow> Some (EnqueueNotification, relevantTxAccepted msgTx))"

definition onReorganization ::
  "hash \<Rightarrow> int32 \<Rightarrow> hash \<Rightarrow> int32 \<Rightarrow> (intake \<times> 'tx notification) option" where
  "onReorganization oldHash oldHeight newHash newHeight =
     Some (EnqueueNotification,
           reorganization oldHash (scast oldHeight) newHash (scast newHeight))"

definition onWinningTickets ::
  "hash \<Rightarrow> int64 \<Rightarrow> hash list \<Rightarrow> (intake \<times> 'tx notification) option" where
  "onWinningTickets hash height tickets =
     Some (EnqueueVotingNotification, winningTickets hash height tickets)"

text \<open>
  \<open>tickets map[chainhash.Hash]bool\<close> is given as the list of its entries in the order
  in which \<open>range\<close> visits them (Go leaves that order open); the keys of a map are
  distinct. The loop appends the key of every entry whose flag is false.
\<close>

fun missed_of :: "(hash \<times> bool) list \<Rightarrow> hash list \<Rightarrow> hash list" where
  "missed_of [] missed = missed"
| "missed_of ((ticketHash, spent) # rest) missed =
     (if \<not> spent then missed_of rest (missed @ [ticketHash]) else missed_of rest missed)"

definition onSpentAndMissedTickets ::
  "hash \<Rightarrow> int64 \<Rightarrow> int64 \<Rightarrow> (hash \<times> bool) list \<Rightarrow> (intake \<times> 'tx notification) option" where
  "onSpentAndMissedTickets blockHash height sdiff tickets =
     (let missed = missed_of tickets [] in
      if length missed = 0 then None
      else Some (EnqueueNotification, missedTickets blockHash height missed))"

definition onStakeDifficulty ::
  "hash \<Rightarrow> int64 \<Rightarrow> int64 \<Rightarrow> (intake \<times> 'tx notification) option" where
  "onStakeDifficulty hash height stakeDiff =
     Some (EnqueueNotification, stakeDifficulty hash height stakeDiff)"

subsection \<open>Channels, timers and the local state of the dispatch loops\<close>

text \<open>
  A value of type \<open>interface{}\<close> travelling through the queues is a notification or
  \<open>nil\<close> (\<open>None\<close>).
\<close>

type_synonym 'tx iface = "'tx notification option"

text \<open>
  A consumer-facing channel (\<open>dequeueNotification\<close>, \<open>dequeueVotingNotification\<close>):
  the values the consumer has received from it so far, in order, and whether it has
  been closed. The channels are unbuffered, so a send completes exactly when the
  consumer receives.
\<close>

record 'a chan =
  received :: "'a list"
  closed :: bool

datatype panic = CloseOfClosedChannel | SendOnClosedChannel | IndexOutOfRange | NegativeWaitGroup

definition close_chan :: "'a chan \<Rightarrow> panic + 'a chan" where
  "close_chan ch = (if closed ch then Inl CloseOfClosedChannel else Inr (ch\<lparr>closed := True\<rparr>))"

definition send_chan :: "'a \<Rightarrow> 'a chan \<Rightarrow> panic + 'a chan" where
  "send_chan v ch =
     (if closed ch then Inl SendOnClosedChannel else Inr (ch\<lparr>received := received ch @ [v]\<rparr>))"

text \<open>
  Time is counted in nanoseconds, as \<open>time.Duration\<close> does. The channel returned by
  \<open>time.After(d)\<close> at instant \<open>t\<close> is \<open>After (t + d)\<close>: it delivers one value at that
  instant. Once that value has been received the channel is \<open>Drained\<close> and never ready
  again.
\<close>

definition Second :: nat where "Second = 1000000000"
definition Minute :: nat where "Minute = 60 * Second"

datatype timer = After nat | Drained

text \<open>
  The local variables shared by the text of \<open>handler\<close> and \<open>handlerVoting\<close>:
  \<open>notifications\<close>, \<open>enqueue\<close> (\<open>False\<close> once it is set to \<open>nil\<close>), \<open>dequeue\<close>
  (\<open>False\<close> while it is \<open>nil\<close>) and \<open>next\<close>.
\<close>

record 'tx queue_vars =
  notifications :: "'tx iface list"
  enqueue :: bool
  dequeue :: bool
  nxt :: "'tx iface"

datatype control = Continue | BreakOut

text \<open>\<open>case n, ok := <-enqueue\<close> with \<open>ok = false\<close>.\<close>

definition enqueue_closed_case :: "'tx queue_vars \<Rightarrow> 'tx queue_vars \<times> control" where
  "enqueue_closed_case q =
     (if length (notifications q) = 0 then (q, BreakOut)
      else (q\<lparr>enqueue := False\<rparr>, Continue))"

text \<open>\<open>case n, ok := <-enqueue\<close> with \<open>ok = true\<close>.\<close>

definition enqueue_case :: "'tx iface \<Rightarrow> 'tx queue_vars \<Rightarrow> 'tx queue_vars" where
  "enqueue_case n q =
     (let q1 = (if length (notifications q) = 0 then q\<lparr>nxt := n, dequeue := True\<rparr> else q)
      in q1\<lparr>notifications := notifications q1 @ [n]\<rparr>)"

text \<open>
  \<open>case dequeue <- next\<close>, after the send has completed. \<open>notifications[0] = nil\<close>
  panics on an empty slice.
\<close>

definition dequeue_case :: "'tx queue_vars \<Rightarrow> panic + ('tx queue_vars \<times> control)" where
  "dequeue_case q =
     (if notifications q = [] then Inl IndexOutOfRange
      else
        let q1 = q\<lparr>notifications := tl (notifications q)\<rparr> in
        if length (notifications q1) \<noteq> 0 then Inr (q1\<lparr>nxt := hd (notifications q1)\<rparr>, Continue)
        else if \<not> enqueue q1 then Inr (q1, BreakOut)
        else Inr (q1\<lparr>dequeue := False\<rparr>, Continue))"

text \<open>The variables at the entry of either loop.\<close>

definition queue_init :: "'tx queue_vars" where
  "queue_init = \<lparr>notifications = [], enqueue = True, dequeue = False, nxt = None\<rparr>"

text \<open>\<open>handler\<close> has the timer \<open>pingChan\<close> besides.\<close>

record 'tx handler_vars =
  qv :: "'tx queue_vars"
  pingChan :: timer

definition handler_init :: "nat \<Rightarrow> 'tx handler_vars" where
  "handler_init now = \<lparr>qv = queue_init, pingChan = After (now + Minute)\<rparr>"

subsection \<open>The client\<close>

text \<open>
  The embedded transport client is external. The model records which of its lifecycle
  methods was called last.
\<close>

datatype transport = NotConnected | Connected | Disconnected | ShutDown

text \<open>
  \<open>RPCClient\<close>. Besides the fields of the struct the record holds what the goroutines
  started by the client are doing: the local variables of \<open>handler\<close> and
  \<open>handlerVoting\<close> while they run, the start instants of the probes that wait for a
  session response, and the timers that probes are waiting to send on
  \<open>pingChanReset\<close>. \<open>enqueueNotification\<close> and \<open>enqueueVotingNotification\<close> hold the
  values the loops have received from these channels, in order. \<open>now\<close> is the clock.
\<close>

record 'tx client =
  chainParams_Net :: uint32
  transport :: transport
  enqueueNotification :: "'tx iface list"
  dequeueNotification :: "'tx iface chan"
  enqueueVotingNotification :: "'tx iface list"
  dequeueVotingNotification :: "'tx iface chan"
  quit :: bool
  wg :: nat
  started :: bool
  go_handler :: "'tx handler_vars option"
  go_handlerVoting :: "'tx queue_vars option"
  probes :: "nat list"
  pingChanReset :: "timer list"
  now :: nat

definition NewRPCClientConfig :: "uint32 \<Rightarrow> 'tx client" where
  "NewRPCClientConfig net =
     \<lparr>chainParams_Net = net, transport = NotConnected,
      enqueueNotification = [], dequeueNotification = \<lparr>received = [], closed = False\<rparr>,
      enqueueVotingNotification = [],
      dequeueVotingNotification = \<lparr>received = [], closed = False\<rparr>,
      quit = False, wg = 0, started = False,
      go_handler = None, go_handlerVoting = None, probes = [], pingChanReset = [], now = 0\<rparr>"

subsection \<open>Start and Stop\<close>

text \<open>
  What the remote side answers during \<open>Start\<close>: the outcome of \<open>Connect\<close> (which may
  retry forever and then never returns), of \<open>GetCurrentNet\<close> and of \<open>Version\<close>. The
  errors of the transport are opaque strings.
\<close>

type_synonym rpc_error = string

datatype connect_result = ConnectOk | ConnectErr rpc_error | ConnectBlocks

record VersionResult =
  Major :: uint32
  Minor :: uint32
  Patch :: uint32

record server =
  connect :: connect_result
  getCurrentNet :: "rpc_error + uint32"
  version :: "rpc_error + (string \<rightharpoonup> VersionResult)"

text \<open>Indexing a Go map with an absent key gives the zero value.\<close>

definition version_lookup :: "(string \<rightharpoonup> VersionResult) \<Rightarrow> string \<Rightarrow> VersionResult" where
  "version_lookup versions k =
     (case versions k of None \<Rightarrow> \<lparr>Major = 0, Minor = 0, Patch = 0\<rparr> | Some r \<Rightarrow> r)"

text \<open>The four error returns of \<open>Start\<close>, by the arguments given to \<open>errors.E\<close>.\<close>

datatype error =
    E_IO rpc_error
  | E_getcurrentnet rpc_error
  | E_mismatched_networks
  | E_incompatible_API semver semver

definition Disconnect :: "'tx client \<Rightarrow> 'tx client" where
  "Disconnect c = c\<lparr>transport := Disconnected\<rparr>"

text \<open>
  \<open>Start\<close>, run without interruption at the instant \<open>now c\<close>. The result is \<open>None\<close>
  when \<open>Connect\<close> never returns; otherwise the returned error (\<open>None\<close> for \<open>nil\<close>) and
  the client. The deferred function disconnects on every error return after
  \<open>Connect\<close> has succeeded.
\<close>

definition Start :: "server \<Rightarrow> 'tx client \<Rightarrow> (error option \<times> 'tx client) option" where
  "Start srv c =
     (case connect srv of
        ConnectBlocks \<Rightarrow> None
      | ConnectErr e \<Rightarrow> Some (Some (E_IO e), c)
      | ConnectOk \<Rightarrow>
          let c1 = c\<lparr>transport := Connected\<rparr> in
          (case getCurrentNet srv of
             Inl e \<Rightarrow> Some (Some (E_getcurrentnet e), Disconnect c1)
           | Inr net \<Rightarrow>
               if net \<noteq> chainParams_Net c1 then Some (Some E_mismatched_networks, Disconnect c1)
               else
                 let serverAPI =
                   (case version srv of
                      Inl e \<Rightarrow> semver_zero
                    | Inr versions \<Rightarrow>
                        let versionResult = version_lookup versions ''fnodjsonrpcapi'' in
                        \<lparr>major = Major versionResult, minor = Minor versionResult,
                         patch = Patch versionResult\<rparr>)
                 in
                 if \<not> semverCompatible requiredChainServerAPI serverAPI
                 then Some (Some (E_incompatible_API serverAPI requiredChainServerAPI),
                            Disconnect c1)
                 else Some (None,
                            c1\<lparr>started := True, wg := wg c1 + 2,
                               go_handler := Some (handler_init (now c1)),
                               go_handlerVoting := Some queue_init\<rparr>)))"

text \<open>
  \<open>Stop\<close>, under \<open>quitMtx\<close>: the \<open>select\<close> with a \<open>default\<close> case tests whether \<open>quit\<close>
  is closed.
\<close>

definition Stop :: "'tx client \<Rightarrow> panic + 'tx client" where
  "Stop c =
     (if quit c then Inr c
      else
        let c1 = c\<lparr>quit := True, transport := ShutDown\<rparr> in
        if \<not> started c1 then
          (case close_chan (dequeueNotification c1) of
             Inl p \<Rightarrow> Inl p
           | Inr d \<Rightarrow>
               (case close_chan (dequeueVotingNotification c1) of
                  Inl p \<Rightarrow> Inl p
                | Inr dv \<Rightarrow>
                    Inr (c1\<lparr>dequeueNotification := d, dequeueVotingNotification := dv\<rparr>)))
        else Inr c1)"

subsection \<open>The dispatch loops\<close>

text \<open>
  The cases of the \<open>select\<close> statements of the two loops. \<open>handlerVoting\<close> has the
  first four only.
\<close>

datatype 'tx select_case =
    RecvEnqueue "'tx iface"
  | RecvEnqueueClosed
  | SendDequeue
  | RecvQuit
  | RecvPingChan
  | RecvPingChanReset timer

text \<open>
  One iteration of the loop of \<open>handler\<close> at instant \<open>t\<close>, once the communication of
  the chosen case has taken place: the new local variables, whether the loop goes on,
  and whether the iteration has started a probe (the two goroutines of the
  \<open>pingChan\<close> case).
\<close>

definition handler_body ::
  "nat \<Rightarrow> 'tx select_case \<Rightarrow> 'tx handler_vars \<Rightarrow> panic + ('tx handler_vars \<times> control \<times> bool)" where
  "handler_body t sc h =
     (case sc of
        RecvEnqueueClosed \<Rightarrow>
          (case enqueue_closed_case (qv h) of (q, ctl) \<Rightarrow> Inr (h\<lparr>qv := q\<rparr>, ctl, False))
      | RecvEnqueue n \<Rightarrow>
          Inr (h\<lparr>qv := enqueue_case n (qv h), pingChan := After (t + Minute)\<rparr>, Continue, False)
      | SendDequeue \<Rightarrow>
          (case dequeue_case (qv h) of
             Inl p \<Rightarrow> Inl p
           | Inr (q, ctl) \<Rightarrow> Inr (h\<lparr>qv := q\<rparr>, ctl, False))
      | RecvPingChan \<Rightarrow> Inr (h\<lparr>pingChan := Drained\<rparr>, Continue, True)
      | RecvPingChanReset ch \<Rightarrow> Inr (h\<lparr>pingChan := ch\<rparr>, Continue, False)
      | RecvQuit \<Rightarrow> Inr (h, BreakOut, False))"

text \<open>One iteration of the loop of \<open>handlerVoting\<close>.\<close>

definition handlerVoting_body ::
  "'tx select_case \<Rightarrow> 'tx queue_vars \<Rightarrow> panic + ('tx queue_vars \<times> control)" where
  "handlerVoting_body sc q =
     (case sc of
        RecvEnqueueClosed \<Rightarrow> Inr (enqueue_closed_case q)
      | RecvEnqueue n \<Rightarrow> Inr (enqueue_case n q, Continue)
      | SendDequeue \<Rightarrow> dequeue_case q
      | RecvQuit \<Rightarrow> Inr (q, BreakOut)
      | _ \<Rightarrow> Inr (q, Continue))"

text \<open>
  When a case is ready. A receive from or a send on a \<open>nil\<close> channel is never ready.
  No statement of the package closes \<open>enqueueNotification\<close> or
  \<open>enqueueVotingNotification\<close>, so the receive with \<open>ok = false\<close> is never ready in
  a client. The receive with \<open>ok = true\<close> needs a callback that sends and the send on
  \<open>dequeue\<close> needs the consumer to receive: both are choices of the schedule.
\<close>

definition queue_ready :: "'tx select_case \<Rightarrow> 'tx queue_vars \<Rightarrow> bool \<Rightarrow> bool" where
  "queue_ready sc q quit_closed =
     (case sc of
        RecvEnqueue n \<Rightarrow> enqueue q
      | RecvEnqueueClosed \<Rightarrow> False
      | SendDequeue \<Rightarrow> dequeue q
      | RecvQuit \<Rightarrow> quit_closed
      | _ \<Rightarrow> False)"

definition handler_ready :: "'tx select_case \<Rightarrow> 'tx handler_vars \<Rightarrow> 'tx client \<Rightarrow> bool" where
  "handler_ready sc h c =
     (case sc of
        RecvPingChan \<Rightarrow> (case pingChan h of After d \<Rightarrow> d \<le> now c | Drained \<Rightarrow> False)
      | RecvPingChanReset ch \<Rightarrow> ch \<in> set (pingChanReset c)
      | _ \<Rightarrow> queue_ready sc (qv h) (quit c))"

text \<open>
  The communication of a case of \<open>handler\<close> as seen by the rest of the client: a
  received value is recorded, the value of \<open>next\<close> goes to the consumer, the probe
  whose timer is received stops waiting.
\<close>

definition handler_comm ::
  "'tx select_case \<Rightarrow> 'tx handler_vars \<Rightarrow> 'tx client \<Rightarrow> panic + 'tx client" where
  "handler_comm sc h c =
     (case sc of
        RecvEnqueue n \<Rightarrow> Inr (c\<lparr>enqueueNotification := enqueueNotification c @ [n]\<rparr>)
      | SendDequeue \<Rightarrow>
          (case send_chan (nxt (qv h)) (dequeueNotification c) of
             Inl p \<Rightarrow> Inl p
           | Inr d \<Rightarrow> Inr (c\<lparr>dequeueNotification := d\<rparr>))
      | RecvPingChanReset ch \<Rightarrow> Inr (c\<lparr>pingChanReset := remove1 ch (pingChanReset c)\<rparr>)
      | _ \<Rightarrow> Inr c)"

definition handlerVoting_comm ::
  "'tx select_case \<Rightarrow> 'tx queue_vars \<Rightarrow> 'tx client \<Rightarrow> panic + 'tx client" where
  "handlerVoting_comm sc q c =
     (case sc of
        RecvEnqueue n \<Rightarrow>
          Inr (c\<lparr>enqueueVotingNotification := enqueueVotingNotification c @ [n]\<rparr>)
      | SendDequeue \<Rightarrow>
          (case send_chan (nxt q) (dequeueVotingNotification c) of
             Inl p \<Rightarrow> Inl p
           | Inr d \<Rightarrow> Inr (c\<lparr>dequeueVotingNotification := d\<rparr>))
      | _ \<Rightarrow> Inr c)"

text \<open>\<open>wg.Done()\<close> panics on a zero counter.\<close>

definition wg_Done :: "'tx client \<Rightarrow> panic + 'tx client" where
  "wg_Done c = (if wg c = 0 then Inl NegativeWaitGroup else Inr (c\<lparr>wg := wg c - 1\<rparr>))"

text \<open>
  What \<open>handler\<close> does after its loop:
  \<open>c.Stop(); close(c.dequeueNotification); c.wg.Done()\<close>, and the goroutine ends.
\<close>

definition handler_exit :: "'tx client \<Rightarrow> panic + 'tx client" where
  "handler_exit c =
     (case Stop c of
        Inl p \<Rightarrow> Inl p
      | Inr c1 \<Rightarrow>
          (case close_chan (dequeueNotification c1) of
             Inl p \<Rightarrow> Inl p
           | Inr d \<Rightarrow>
               (case wg_Done (c1\<lparr>dequeueNotification := d\<rparr>) of
                  Inl p \<Rightarrow> Inl p
                | Inr c2 \<Rightarrow> Inr (c2\<lparr>go_handler := None\<rparr>))))"

text \<open>
  What \<open>handlerVoting\<close> does after its loop:
  \<open>close(c.dequeueVotingNotification); c.wg.Done()\<close>.
\<close>

definition handlerVoting_exit :: "'tx client \<Rightarrow> panic + 'tx client" where
  "handlerVoting_exit c =
     (case close_chan (dequeueVotingNotification c) of
        Inl p \<Rightarrow> Inl p
      | Inr d \<Rightarrow>
          (case wg_Done (c\<lparr>dequeueVotingNotification := d\<rparr>) of
             Inl p \<Rightarrow> Inl p
           | Inr c2 \<Rightarrow> Inr (c2\<lparr>go_handlerVoting := None\<rparr>)))"

text \<open>
  The result of a step: the next client, or the step is not ready in this state (the
  goroutine stays blocked), or the process panics.
\<close>

datatype 'a outcome = Next 'a | NotReady | Panicked panic

text \<open>One iteration of \<open>handler\<close> with the case \<open>sc\<close>, as a step of the client.\<close>

definition handler_step :: "'tx select_case \<Rightarrow> 'tx client \<Rightarrow> 'tx client outcome" where
  "handler_step sc c =
     (case go_handler c of
        None \<Rightarrow> NotReady
      | Some h \<Rightarrow>
          if \<not> handler_ready sc h c then NotReady
          else
            (case handler_comm sc h c of
               Inl p \<Rightarrow> Panicked p
             | Inr c1 \<Rightarrow>
                 (case handler_body (now c1) sc h of
                    Inl p \<Rightarrow> Panicked p
                  | Inr (h', ctl, probe) \<Rightarrow>
                      let c2 = c1\<lparr>probes := (if probe then probes c1 @ [now c1] else probes c1)\<rparr>
                      in
                      (case ctl of
                         Continue \<Rightarrow> Next (c2\<lparr>go_handler := Some h'\<rparr>)
                       | BreakOut \<Rightarrow>
                           (case handler_exit c2 of
                              Inl p \<Rightarrow> Panicked p
                            | Inr c3 \<Rightarrow> Next c3)))))"

text \<open>One iteration of \<open>handlerVoting\<close> with the case \<open>sc\<close>, as a step of the client.\<close>

definition handlerVoting_step :: "'tx select_case \<Rightarrow> 'tx client \<Rightarrow> 'tx client outcome" where
  "handlerVoting_step sc c =
     (case go_handlerVoting c of
        None \<Rightarrow> NotReady
      | Some q \<Rightarrow>
          if \<not> queue_ready sc q (quit c) then NotReady
          else
            (case handlerVoting_comm sc q c of
               Inl p \<Rightarrow> Panicked p
             | Inr c1 \<Rightarrow>
                 (case handlerVoting_body sc q of
                    Inl p \<Rightarrow> Panicked p
                  | Inr (q', ctl) \<Rightarrow>
                      (case ctl of
                         Continue \<Rightarrow> Next (c1\<lparr>go_handlerVoting := Some q'\<rparr>)
                       | BreakOut \<Rightarrow>
                           (case handlerVoting_exit c1 of
                              Inl p \<Rightarrow> Panicked p
                            | Inr c3 \<Rightarrow> Next c3)))))"

subsection \<open>Callbacks, probes and the steps of a client\<close>

text \<open>
  An invocation of one of the seven handlers that \<open>NewRPCClientConfig\<close> registers
  with the transport, with its arguments.
\<close>

datatype callback =
    OnBlockConnected bytes "bytes list"
  | OnBlockDisconnected bytes
  | OnRelevantTxAccepted bytes
  | OnReorganization hash int32 hash int32
  | OnWinningTickets hash int64 "hash list"
  | OnSpentAndMissedTickets hash int64 int64 "(hash \<times> bool) list"
  | OnStakeDifficulty hash int64 int64

text \<open>The registration table \<open>ntfnCallbacks\<close>.\<close>

fun ntfnCallbacks ::
  "(bytes \<Rightarrow> 'tx option) \<Rightarrow> callback \<Rightarrow> (intake \<times> 'tx notification) option" where
  "ntfnCallbacks D (OnBlockConnected header transactions) = onBlockConnected header transactions"
| "ntfnCallbacks D (OnBlockDisconnected header) = onBlockDisconnected header"
| "ntfnCallbacks D (OnRelevantTxAccepted transaction) = onRelevantTxAccepted D transaction"
| "ntfnCallbacks D (OnReorganization oldHash oldHeight newHash newHeight) =
     onReorganization oldHash oldHeight newHash newHeight"
| "ntfnCallbacks D (OnWinningTickets hash height tickets) = onWinningTickets hash height tickets"
| "ntfnCallbacks D (OnSpentAndMissedTickets blockHash height sdiff tickets) =
     onSpentAndMissedTickets blockHash height sdiff tickets"
| "ntfnCallbacks D (OnStakeDifficulty hash height stakeDiff) =
     onStakeDifficulty hash height stakeDiff"

text \<open>The case that the \<open>select\<close> at the end of a callback takes.\<close>

datatype pick = IntakeAccepted | QuitClosed

text \<open>
  A callback as a step of the client. The send on the intake channel is the receive of
  the loop that reads this channel, so it is one step of that loop.
\<close>

definition callback_step ::
  "(bytes \<Rightarrow> 'tx option) \<Rightarrow> callback \<Rightarrow> pick \<Rightarrow> 'tx client \<Rightarrow> 'tx client outcome" where
  "callback_step D cb pk c =
     (case ntfnCallbacks D cb of
        None \<Rightarrow> Next c
      | Some (ch, n) \<Rightarrow>
          (case pk of
             QuitClosed \<Rightarrow> (if quit c then Next c else NotReady)
           | IntakeAccepted \<Rightarrow>
               (case ch of
                  EnqueueNotification \<Rightarrow> handler_step (RecvEnqueue (Some n)) c
                | EnqueueVotingNotification \<Rightarrow> handlerVoting_step (RecvEnqueue (Some n)) c)))"

definition remove_nth :: "nat \<Rightarrow> 'a list \<Rightarrow> 'a list" where
  "remove_nth i xs = take i xs @ drop (Suc i) xs"

text \<open>
  The goroutine that waits for the result of a probe started at instant \<open>probes c ! i\<close>
  selects between the session response and \<open>time.After(time.Minute)\<close>. It is woken by
  whichever comes first, so the response case can be taken up to the instant the
  timeout fires and the timeout case from that instant on.

  The response case: \<open>c.Stop()\<close> if the response carries an error, and in both cases
  the goroutine then waits to send a fresh timer on \<open>pingChanReset\<close>.
\<close>

definition probe_response :: "nat \<Rightarrow> bool \<Rightarrow> 'tx client \<Rightarrow> 'tx client outcome" where
  "probe_response i failed c =
     (if i < length (probes c) \<and> now c \<le> probes c ! i + Minute then
        (case (if failed then Stop c else Inr c) of
           Inl p \<Rightarrow> Panicked p
         | Inr c1 \<Rightarrow>
             Next (c1\<lparr>probes := remove_nth i (probes c1),
                      pingChanReset := pingChanReset c1 @ [After (now c1 + Minute)]\<rparr>))
      else NotReady)"

text \<open>The timeout case: \<open>c.Stop()\<close>.\<close>

definition probe_timeout :: "nat \<Rightarrow> 'tx client \<Rightarrow> 'tx client outcome" where
  "probe_timeout i c =
     (if i < length (probes c) \<and> probes c ! i + Minute \<le> now c then
        (case Stop c of
           Inl p \<Rightarrow> Panicked p
         | Inr c1 \<Rightarrow> Next (c1\<lparr>probes := remove_nth i (probes c1)\<rparr>))
      else NotReady)"

text \<open>
  The steps of a client: time passes, the transport invokes a callback, one of the
  loops takes a case of its \<open>select\<close> that does not depend on a callback, a caller
  invokes \<open>Stop\<close>, a probe ends.
\<close>

datatype action =
    Advance nat
  | Notify callback pick
  | HandlerDequeue
  | HandlerQuit
  | HandlerPingChan
  | HandlerPingChanReset timer
  | VotingDequeue
  | VotingQuit
  | CallStop
  | ProbeResponse nat bool
  | ProbeTimeout nat

fun step :: "(bytes \<Rightarrow> 'tx option) \<Rightarrow> action \<Rightarrow> 'tx client \<Rightarrow> 'tx client outcome" where
  "step D (Advance d) c = Next (c\<lparr>now := now c + d\<rparr>)"
| "step D (Notify cb pk) c = callback_step D cb pk c"
| "step D HandlerDequeue c = handler_step SendDequeue c"
| "step D HandlerQuit c = handler_step RecvQuit c"
| "step D HandlerPingChan c = handler_step RecvPingChan c"
| "step D (HandlerPingChanReset ch) c = handler_step (RecvPingChanReset ch) c"
| "step D VotingDequeue c = handlerVoting_step SendDequeue c"
| "step D VotingQuit c = handlerVoting_step RecvQuit c"
| "step D CallStop c = (case Stop c of Inl p \<Rightarrow> Panicked p | Inr c1 \<Rightarrow> Next c1)"
| "step D (ProbeResponse i failed) c = probe_response i failed c"
| "step D (ProbeTimeout i) c = probe_timeout i c"

text \<open>A schedule is run step by step; it stops at the first step that is not ready or panics.\<close>

fun run :: "(bytes \<Rightarrow> 'tx option) \<Rightarrow> action list \<Rightarrow> 'tx client \<Rightarrow> 'tx client outcome" where
  "run D [] c = Next c"
| "run D (a # as) c =
     (case step D a c of
        Next c1 \<Rightarrow> run D as c1
      | NotReady \<Rightarrow> NotReady
      | Panicked p \<Rightarrow> Panicked p)"

subsection \<open>Sessions, observations and invariants\<close>

text \<open>
  \<open>Start\<close> is not one critical section: it takes \<open>quitMtx\<close> only around
  \<open>c.started = true\<close>, so a call of \<open>Stop\<close> can run between the checks and that
  assignment. For such runs \<open>Start\<close> is cut in two. \<open>Start_checks\<close> is \<open>Start\<close> up to
  and including the test of the API version: its result is that of \<open>Start\<close> on every
  error return, and \<open>nil\<close> with the connected client when every check has passed.
\<close>

definition Start_checks :: "server \<Rightarrow> 'tx client \<Rightarrow> (error option \<times> 'tx client) option" where
  "Start_checks srv c =
     (case connect srv of
        ConnectBlocks \<Rightarrow> None
      | ConnectErr e \<Rightarrow> Some (Some (E_IO e), c)
      | ConnectOk \<Rightarrow>
          let c1 = c\<lparr>transport := Connected\<rparr> in
          (case getCurrentNet srv of
             Inl e \<Rightarrow> Some (Some (E_getcurrentnet e), Disconnect c1)
           | Inr net \<Rightarrow>
               if net \<noteq> chainParams_Net c1 then Some (Some E_mismatched_networks, Disconnect c1)
               else
                 let serverAPI =
                   (case version srv of
                      Inl e \<Rightarrow> semver_zero
                    | Inr versions \<Rightarrow>
                        let versionResult = version_lookup versions ''fnodjsonrpcapi'' in
                        \<lparr>major = Major versionResult, minor = Minor versionResult,
                         patch = Patch versionResult\<rparr>)
                 in
                 if \<not> semverCompatible requiredChainServerAPI serverAPI
                 then Some (Some (E_incompatible_API serverAPI requiredChainServerAPI),
                            Disconnect c1)
                 else Some (None, c1)))"

text \<open>
  \<open>Start_launch\<close> is the rest of \<open>Start\<close>: \<open>c.started = true\<close> under the mutex,
  \<open>c.wg.Add(2)\<close>, and the two \<open>go\<close> statements.
\<close>

definition Start_launch :: "'tx client \<Rightarrow> 'tx client" where
  "Start_launch c =
     c\<lparr>started := True, wg := wg c + 2,
       go_handler := Some (handler_init (now c)),
       go_handlerVoting := Some queue_init\<rparr>"

text \<open>
  The run in which a concurrent \<open>Stop\<close> takes the mutex after the checks of \<open>Start\<close>
  have passed and before \<open>Start\<close> sets \<open>started\<close>: the checks, then \<open>Stop\<close>, then the
  rest of \<open>Start\<close>. There is no such run when a check fails.
\<close>

definition Start_with_Stop :: "server \<Rightarrow> 'tx client \<Rightarrow> 'tx client outcome" where
  "Start_with_Stop srv c =
     (case Start_checks srv c of
        None \<Rightarrow> NotReady
      | Some (Some e, c1) \<Rightarrow> NotReady
      | Some (None, c1) \<Rightarrow>
          (case Stop c1 of
             Inl p \<Rightarrow> Panicked p
           | Inr c2 \<Rightarrow> Next (Start_launch c2)))"

text \<open>
  A session: the client is created for the network \<open>net\<close>, \<open>Start\<close> is called once
  against the server \<open>srv\<close>, and then the schedule runs. A \<open>Start\<close> that never returns
  leaves the session blocked.
\<close>

definition session ::
  "(bytes \<Rightarrow> 'tx option) \<Rightarrow> uint32 \<Rightarrow> server \<Rightarrow> action list \<Rightarrow> 'tx client outcome" where
  "session D net srv acts =
     (case Start srv (NewRPCClientConfig net) of
        None \<Rightarrow> NotReady
      | Some (err, c) \<Rightarrow> run D acts c)"

text \<open>
  What can be seen of a stream from outside: the values its loop has accepted, the
  values its consumer has received, and whether its output channel is closed.
\<close>

definition general_stream :: "'tx client \<Rightarrow> 'tx iface list \<times> 'tx iface list \<times> bool" where
  "general_stream c =
     (enqueueNotification c, received (dequeueNotification c), closed (dequeueNotification c))"

definition voting_stream :: "'tx client \<Rightarrow> 'tx iface list \<times> 'tx iface list \<times> bool" where
  "voting_stream c =
     (enqueueVotingNotification c, received (dequeueVotingNotification c),
      closed (dequeueVotingNotification c))"

text \<open>
  The state of a running loop: what the consumer has received followed by the buffer
  is what the loop has accepted, the output channel is open, \<open>enqueue\<close> is not \<open>nil\<close>,
  \<open>dequeue\<close> is set exactly when the buffer is not empty, and then \<open>next\<close> is its head.
\<close>

definition queue_inv :: "'tx iface list \<Rightarrow> 'tx iface chan \<Rightarrow> 'tx queue_vars \<Rightarrow> bool" where
  "queue_inv accepted out q \<longleftrightarrow>
     received out @ notifications q = accepted \<and> \<not> closed out \<and> enqueue q \<and>
     dequeue q = (notifications q \<noteq> []) \<and>
     (notifications q \<noteq> [] \<longrightarrow> nxt q = hd (notifications q))"

text \<open>
  The state of a queue whose loop is not running: the consumer has received an initial
  segment of what was accepted; in a started client the loop has ended, so \<open>quit\<close> and
  the output channel are closed; in a client that was not started the output channel is
  closed exactly when \<open>Stop\<close> has run.
\<close>

definition ended_inv :: "'tx iface list \<Rightarrow> 'tx iface chan \<Rightarrow> 'tx client \<Rightarrow> bool" where
  "ended_inv accepted out c \<longleftrightarrow>
     prefix (received out) accepted \<and> (started c \<longrightarrow> closed out \<and> quit c) \<and>
     (\<not> started c \<longrightarrow> closed out = quit c)"

text \<open>
  The invariant of a client: both queues are in one of the two states above and \<open>wg\<close>
  counts the running loops.
\<close>

definition client_inv :: "'tx client \<Rightarrow> bool" where
  "client_inv c \<longleftrightarrow>
     (case go_handler c of
        Some h \<Rightarrow> started c \<and> queue_inv (enqueueNotification c) (dequeueNotification c) (qv h)
      | None \<Rightarrow> ended_inv (enqueueNotification c) (dequeueNotification c) c) \<and>
     (case go_handlerVoting c of
        Some q \<Rightarrow> started c \<and>
                  queue_inv (enqueueVotingNotification c) (dequeueVotingNotification c) q
      | None \<Rightarrow> ended_inv (enqueueVotingNotification c) (dequeueVotingNotification c) c) \<and>
     wg c = (if go_handler c = None then 0 else 1) + (if go_handlerVoting c = None then 0 else 1)"

text \<open>
  Whether a notification is a \<open>winningTickets\<close> value.
\<close>

fun is_winningTickets :: "'tx notification \<Rightarrow> bool" where
  "is_winningTickets (winningTickets blockHash blockHeight tickets) = True"
| "is_winningTickets _ = False"

text \<open>
  The values of the general stream: a notification, not \<open>nil\<close>, of one of the six
  kinds other than \<open>winningTickets\<close>.
\<close>

definition general_value :: "'tx iface \<Rightarrow> bool" where
  "general_value x = (case x of None \<Rightarrow> False | Some n \<Rightarrow> \<not> is_winningTickets n)"

text \<open>
  The values of the voting stream: a \<open>winningTickets\<close> notification.
\<close>

definition voting_value :: "'tx iface \<Rightarrow> bool" where
  "voting_value x = (case x of None \<Rightarrow> False | Some n \<Rightarrow> is_winningTickets n)"

text \<open>
  Every value accepted so far is on the queue of its kind.
\<close>

definition routed :: "'tx client \<Rightarrow> bool" where
  "routed c \<longleftrightarrow>
     list_all general_value (enqueueNotification c) \<and>
     list_all voting_value (enqueueVotingNotification c)"

text \<open>
  Both invariants together.
\<close>

definition good :: "'tx client \<Rightarrow> bool" where
  "good c \<longleftrightarrow> client_inv c \<and> routed c"


section \<open>Properties\<close>

subsection \<open>Auxiliary facts\<close>

lemma missed_of_eq: "missed_of tickets acc = acc @ map fst (filter (\<lambda>e. \<not> snd e) tickets)"
  by (induction tickets acc rule: missed_of.induct) simp_all

lemma set_unspent:
  assumes "distinct (map fst tickets)"
  shows "set (map fst (filter (\<lambda>e. \<not> snd e) tickets)) = {t. map_of tickets t = Some False}"
  using assms by (auto simp: image_iff)

lemma handler_step_RecvEnqueue:
  assumes "go_handler c = Some h" "enqueue (qv h)"
  shows "handler_step (RecvEnqueue n) c =
           Next (c\<lparr>enqueueNotification := enqueueNotification c @ [n],
                   go_handler := Some (h\<lparr>qv := enqueue_case n (qv h),
                                          pingChan := After (now c + Minute)\<rparr>)\<rparr>)"
  using assms
  by (simp add: handler_step_def handler_ready_def queue_ready_def handler_comm_def
      handler_body_def)

lemma required_compat:
  "semverCompatible \<lparr>major = 5, minor = 0, patch = 0\<rparr> v \<longleftrightarrow> major v = 5"
  by (auto simp: semverCompatible_def semver_le_def word_gt_0)

subsection \<open>Invariants of a session\<close>

lemma Start_inv:
  assumes "Start srv (NewRPCClientConfig net) = Some (err, c)"
  shows "client_inv c"
  using assms
  by (auto simp: Start_def NewRPCClientConfig_def Disconnect_def client_inv_def queue_inv_def
      ended_inv_def queue_init_def handler_init_def Let_def
      split: connect_result.splits sum.splits if_splits)

lemma Stop_started: "started c \<Longrightarrow> Stop c = Inr (if quit c then c else c\<lparr>quit := True, transport := ShutDown\<rparr>)"
  by (simp add: Stop_def)

lemma Stop_not_started:
  "\<not> started c \<Longrightarrow> closed (dequeueNotification c) = quit c \<Longrightarrow>
   closed (dequeueVotingNotification c) = quit c \<Longrightarrow>
   Stop c = Inr (if quit c then c
                 else c\<lparr>quit := True, transport := ShutDown,
                        dequeueNotification := (dequeueNotification c)\<lparr>closed := True\<rparr>,
                        dequeueVotingNotification := (dequeueVotingNotification c)\<lparr>closed := True\<rparr>\<rparr>)"
  by (simp add: Stop_def close_chan_def)

lemma Stop_inv:
  assumes "client_inv c"
  shows "\<exists>c'. Stop c = Inr c' \<and> client_inv c' \<and> quit c' \<and>
           enqueueNotification c' = enqueueNotification c \<and>
           enqueueVotingNotification c' = enqueueVotingNotification c \<and>
           received (dequeueNotification c') = received (dequeueNotification c) \<and>
           received (dequeueVotingNotification c') = received (dequeueVotingNotification c) \<and>
           go_handler c' = go_handler c \<and> go_handlerVoting c' = go_handlerVoting c \<and>
           started c' = started c \<and> wg c' = wg c \<and> probes c' = probes c \<and>
           pingChanReset c' = pingChanReset c \<and> now c' = now c"
proof (cases "started c")
  case True
  then show ?thesis using assms
    by (auto simp: Stop_started client_inv_def ended_inv_def split: option.splits)
next
  case False
  with assms have n: "go_handler c = None" "go_handlerVoting c = None"
    by (auto simp: client_inv_def split: option.splits)
  with assms False have cl: "closed (dequeueNotification c) = quit c"
      "closed (dequeueVotingNotification c) = quit c"
    by (auto simp: client_inv_def ended_inv_def)
  show ?thesis using assms False n cl
    by (auto simp: Stop_not_started client_inv_def ended_inv_def)
qed

lemma dequeue_case_inv:
  assumes "queue_inv accepted out q" "dequeue q"
  shows "dequeue_case q =
           Inr (q\<lparr>notifications := tl (notifications q),
                  nxt := (if tl (notifications q) = [] then nxt q else hd (tl (notifications q))),
                  dequeue := (tl (notifications q) \<noteq> [])\<rparr>, Continue)"
  using assms by (auto simp: queue_inv_def dequeue_case_def Let_def)

lemma queue_inv_dequeue:
  assumes "queue_inv accepted out q" "dequeue q"
  shows "queue_inv accepted (out\<lparr>received := received out @ [nxt q]\<rparr>)
           (q\<lparr>notifications := tl (notifications q),
              nxt := (if tl (notifications q) = [] then nxt q else hd (tl (notifications q))),
              dequeue := (tl (notifications q) \<noteq> [])\<rparr>)"
  using assms by (cases "notifications q") (auto simp: queue_inv_def)

lemma queue_inv_enqueue:
  assumes "queue_inv accepted out q"
  shows "queue_inv (accepted @ [n]) out (enqueue_case n q)"
  using assms by (cases "notifications q") (auto simp: queue_inv_def enqueue_case_def Let_def)

lemma handler_step_SendDequeue:
  assumes "go_handler c = Some h"
    and "queue_inv (enqueueNotification c) (dequeueNotification c) (qv h)"
    and "dequeue (qv h)"
  shows "handler_step SendDequeue c =
           Next (c\<lparr>dequeueNotification :=
                     (dequeueNotification c)\<lparr>received :=
                        received (dequeueNotification c) @ [nxt (qv h)]\<rparr>,
                   go_handler := Some (h\<lparr>qv := (qv h)\<lparr>notifications := tl (notifications (qv h)),
                     nxt := (if tl (notifications (qv h)) = [] then nxt (qv h)
                             else hd (tl (notifications (qv h)))),
                     dequeue := (tl (notifications (qv h)) \<noteq> [])\<rparr>\<rparr>)\<rparr>)"
proof -
  have nc: "\<not> closed (dequeueNotification c)"
    using assms(2) by (simp add: queue_inv_def)
  show ?thesis
    using assms(1,3) nc
    by (simp add: handler_step_def handler_ready_def queue_ready_def handler_comm_def
        send_chan_def handler_body_def dequeue_case_inv [OF assms(2,3)])
qed

lemma handlerVoting_step_SendDequeue:
  assumes "go_handlerVoting c = Some q"
    and "queue_inv (enqueueVotingNotification c) (dequeueVotingNotification c) q"
    and "dequeue q"
  shows "handlerVoting_step SendDequeue c =
           Next (c\<lparr>dequeueVotingNotification :=
                     (dequeueVotingNotification c)\<lparr>received :=
                        received (dequeueVotingNotification c) @ [nxt q]\<rparr>,
                   go_handlerVoting := Some (q\<lparr>notifications := tl (notifications q),
                     nxt := (if tl (notifications q) = [] then nxt q
                             else hd (tl (notifications q))),
                     dequeue := (tl (notifications q) \<noteq> [])\<rparr>)\<rparr>)"
proof -
  have nc: "\<not> closed (dequeueVotingNotification c)"
    using assms(2) by (simp add: queue_inv_def)
  show ?thesis
    using assms(1,3) nc
    by (simp add: handlerVoting_step_def queue_ready_def handlerVoting_comm_def
        send_chan_def handlerVoting_body_def dequeue_case_inv [OF assms(2,3)])
qed

lemma handlerVoting_step_RecvEnqueue:
  assumes "go_handlerVoting c = Some q" "enqueue q"
  shows "handlerVoting_step (RecvEnqueue n) c =
           Next (c\<lparr>enqueueVotingNotification := enqueueVotingNotification c @ [n],
                   go_handlerVoting := Some (enqueue_case n q)\<rparr>)"
  using assms
  by (simp add: handlerVoting_step_def queue_ready_def handlerVoting_comm_def
      handlerVoting_body_def)

lemma handler_step_RecvQuit:
  assumes "go_handler c = Some h" "quit c" "\<not> closed (dequeueNotification c)" "0 < wg c"
  shows "handler_step RecvQuit c =
           Next (c\<lparr>dequeueNotification := (dequeueNotification c)\<lparr>closed := True\<rparr>,
                   wg := wg c - 1, go_handler := None\<rparr>)"
  using assms
  by (simp add: handler_step_def handler_ready_def queue_ready_def handler_comm_def
      handler_body_def handler_exit_def Stop_def close_chan_def wg_Done_def)

lemma handlerVoting_step_RecvQuit:
  assumes "go_handlerVoting c = Some q" "quit c" "\<not> closed (dequeueVotingNotification c)"
    "0 < wg c"
  shows "handlerVoting_step RecvQuit c =
           Next (c\<lparr>dequeueVotingNotification := (dequeueVotingNotification c)\<lparr>closed := True\<rparr>,
                   wg := wg c - 1, go_handlerVoting := None\<rparr>)"
  using assms
  by (simp add: handlerVoting_step_def queue_ready_def handlerVoting_comm_def
      handlerVoting_body_def handlerVoting_exit_def close_chan_def wg_Done_def)

lemma handler_step_RecvPingChan:
  assumes "go_handler c = Some h" "pingChan h = After d" "d \<le> now c"
  shows "handler_step RecvPingChan c =
           Next (c\<lparr>probes := probes c @ [now c], go_handler := Some (h\<lparr>pingChan := Drained\<rparr>)\<rparr>)"
  using assms
  by (simp add: handler_step_def handler_ready_def handler_comm_def handler_body_def)

lemma handler_step_RecvPingChanReset:
  assumes "go_handler c = Some h" "ch \<in> set (pingChanReset c)"
  shows "handler_step (RecvPingChanReset ch) c =
           Next (c\<lparr>pingChanReset := remove1 ch (pingChanReset c),
                   go_handler := Some (h\<lparr>pingChan := ch\<rparr>)\<rparr>)"
  using assms
  by (simp add: handler_step_def handler_ready_def handler_comm_def handler_body_def)

lemma ntfnCallbacks_routing:
  assumes "ntfnCallbacks D cb = Some (ch, n)"
  shows "(ch = EnqueueVotingNotification) = is_winningTickets n \<and>
         (ch = EnqueueNotification) = (\<not> is_winningTickets n) \<and>
         is_winningTickets n = (\<exists>hash height tickets. cb = OnWinningTickets hash height tickets)"
  using assms
  by (cases cb)
     (auto simp: onBlockConnected_def onBlockDisconnected_def onRelevantTxAccepted_def
        onReorganization_def onWinningTickets_def onSpentAndMissedTickets_def
        onStakeDifficulty_def Let_def split: option.splits if_splits)

lemma Start_routed:
  assumes "Start srv (NewRPCClientConfig net) = Some (err, c)"
  shows "routed c"
  using assms
  by (auto simp: Start_def NewRPCClientConfig_def Disconnect_def routed_def Let_def
      split: connect_result.splits sum.splits if_splits)

lemma handler_step_NotReady: "go_handler c = None \<Longrightarrow> handler_step sc c = NotReady"
  by (simp add: handler_step_def)

lemma handlerVoting_step_NotReady:
  "go_handlerVoting c = None \<Longrightarrow> handlerVoting_step sc c = NotReady"
  by (simp add: handlerVoting_step_def)

lemma handler_step_blocked:
  "go_handler c = Some h \<Longrightarrow> \<not> handler_ready sc h c \<Longrightarrow> handler_step sc c = NotReady"
  by (simp add: handler_step_def)

lemma handlerVoting_step_blocked:
  "go_handlerVoting c = Some q \<Longrightarrow> \<not> queue_ready sc q (quit c) \<Longrightarrow>
   handlerVoting_step sc c = NotReady"
  by (simp add: handlerVoting_step_def)

lemma good_Advance: "good c \<Longrightarrow> good (c\<lparr>now := now c + d\<rparr>)"
  by (auto simp: good_def client_inv_def ended_inv_def routed_def split: option.splits)

lemma good_general_accept:
  assumes "good c" "go_handler c = Some h" "\<not> is_winningTickets n"
  shows "\<exists>c'. handler_step (RecvEnqueue (Some n)) c = Next c' \<and> good c'"
proof -
  from assms have qi: "queue_inv (enqueueNotification c) (dequeueNotification c) (qv h)"
    by (auto simp: good_def client_inv_def)
  then have e: "enqueue (qv h)" by (simp add: queue_inv_def)
  show ?thesis
    using assms queue_inv_enqueue [OF qi, of "Some n"]
    by (auto simp: handler_step_RecvEnqueue [OF assms(2) e] good_def client_inv_def
        routed_def general_value_def ended_inv_def split: option.splits)
qed

lemma good_voting_accept:
  assumes "good c" "go_handlerVoting c = Some q" "is_winningTickets n"
  shows "\<exists>c'. handlerVoting_step (RecvEnqueue (Some n)) c = Next c' \<and> good c'"
proof -
  from assms have qi:
    "queue_inv (enqueueVotingNotification c) (dequeueVotingNotification c) q"
    by (auto simp: good_def client_inv_def)
  then have e: "enqueue q" by (simp add: queue_inv_def)
  show ?thesis
    using assms queue_inv_enqueue [OF qi, of "Some n"]
    by (auto simp: handlerVoting_step_RecvEnqueue [OF assms(2) e] good_def client_inv_def
        routed_def voting_value_def ended_inv_def split: option.splits)
qed

lemma good_callback:
  assumes "good c"
  shows "callback_step D cb pk c = NotReady \<or> (\<exists>c'. callback_step D cb pk c = Next c' \<and> good c')"
proof (cases "ntfnCallbacks D cb")
  case None
  then show ?thesis using assms by (simp add: callback_step_def)
next
  case (Some a)
  obtain ch n where a: "a = (ch, n)" by (cases a)
  note r = ntfnCallbacks_routing [OF Some [unfolded a]]
  show ?thesis
  proof (cases pk)
    case QuitClosed
    then show ?thesis using assms Some a by (simp add: callback_step_def)
  next
    case IntakeAccepted
    show ?thesis
    proof (cases ch)
      case EnqueueNotification
      with r have nw: "\<not> is_winningTickets n" by simp
      show ?thesis
      proof (cases "go_handler c")
        case None
        then show ?thesis using Some a IntakeAccepted EnqueueNotification
          by (simp add: callback_step_def handler_step_NotReady)
      next
        case (Some h)
        from good_general_accept [OF assms Some nw] show ?thesis
          using \<open>ntfnCallbacks D cb = Some a\<close> a IntakeAccepted EnqueueNotification
          by (simp add: callback_step_def)
      qed
    next
      case EnqueueVotingNotification
      with r have w: "is_winningTickets n" by simp
      show ?thesis
      proof (cases "go_handlerVoting c")
        case None
        then show ?thesis using Some a IntakeAccepted EnqueueVotingNotification
          by (simp add: callback_step_def handlerVoting_step_NotReady)
      next
        case (Some q)
        from good_voting_accept [OF assms Some w] show ?thesis
          using \<open>ntfnCallbacks D cb = Some a\<close> a IntakeAccepted EnqueueVotingNotification
          by (simp add: callback_step_def)
      qed
    qed
  qed
qed

lemma good_handler_dequeue:
  assumes "good c"
  shows "handler_step SendDequeue c = NotReady \<or>
         (\<exists>c'. handler_step SendDequeue c = Next c' \<and> good c')"
proof (cases "go_handler c")
  case None
  then show ?thesis by (simp add: handler_step_NotReady)
next
  case (Some h)
  from assms Some have qi: "queue_inv (enqueueNotification c) (dequeueNotification c) (qv h)"
    by (auto simp: good_def client_inv_def)
  show ?thesis
  proof (cases "dequeue (qv h)")
    case False
    then show ?thesis using Some
      by (simp add: handler_step_blocked handler_ready_def queue_ready_def)
  next
    case True
    show ?thesis
      using assms Some queue_inv_dequeue [OF qi True]
      by (auto simp: handler_step_SendDequeue [OF Some qi True] good_def client_inv_def
          routed_def ended_inv_def split: option.splits)
  qed
qed

lemma good_voting_dequeue:
  assumes "good c"
  shows "handlerVoting_step SendDequeue c = NotReady \<or>
         (\<exists>c'. handlerVoting_step SendDequeue c = Next c' \<and> good c')"
proof (cases "go_handlerVoting c")
  case None
  then show ?thesis by (simp add: handlerVoting_step_NotReady)
next
  case (Some q)
  from assms Some have qi:
    "queue_inv (enqueueVotingNotification c) (dequeueVotingNotification c) q"
    by (auto simp: good_def client_inv_def)
  show ?thesis
  proof (cases "dequeue q")
    case False
    then show ?thesis using Some
      by (simp add: handlerVoting_step_blocked queue_ready_def)
  next
    case True
    show ?thesis
      using assms Some queue_inv_dequeue [OF qi True]
      by (auto simp: handlerVoting_step_SendDequeue [OF Some qi True] good_def client_inv_def
          routed_def ended_inv_def split: option.splits)
  qed
qed

lemma queue_inv_prefix: "queue_inv accepted out q \<Longrightarrow> prefix (received out) accepted"
  by (auto simp: queue_inv_def)

lemma good_handler_quit:
  assumes "good c"
  shows "handler_step RecvQuit c = NotReady \<or>
         (\<exists>c'. handler_step RecvQuit c = Next c' \<and> good c')"
proof (cases "go_handler c")
  case None
  then show ?thesis by (simp add: handler_step_NotReady)
next
  case (Some h)
  from assms Some have qi: "queue_inv (enqueueNotification c) (dequeueNotification c) (qv h)"
    and st: "started c" and w: "0 < wg c"
    by (auto simp: good_def client_inv_def)
  from qi have nc: "\<not> closed (dequeueNotification c)" by (simp add: queue_inv_def)
  show ?thesis
  proof (cases "quit c")
    case False
    then show ?thesis using Some
      by (simp add: handler_step_blocked handler_ready_def queue_ready_def)
  next
    case True
    show ?thesis
      using assms Some queue_inv_prefix [OF qi] st True
      by (auto simp: handler_step_RecvQuit [OF Some True nc w] good_def client_inv_def
          routed_def ended_inv_def split: option.splits)
  qed
qed

lemma good_voting_quit:
  assumes "good c"
  shows "handlerVoting_step RecvQuit c = NotReady \<or>
         (\<exists>c'. handlerVoting_step RecvQuit c = Next c' \<and> good c')"
proof (cases "go_handlerVoting c")
  case None
  then show ?thesis by (simp add: handlerVoting_step_NotReady)
next
  case (Some q)
  from assms Some have qi:
    "queue_inv (enqueueVotingNotification c) (dequeueVotingNotification c) q"
    and st: "started c" and w: "0 < wg c"
    by (auto simp: good_def client_inv_def)
  from qi have nc: "\<not> closed (dequeueVotingNotification c)" by (simp add: queue_inv_def)
  show ?thesis
  proof (cases "quit c")
    case False
    then show ?thesis using Some
      by (simp add: handlerVoting_step_blocked queue_ready_def)
  next
    case True
    show ?thesis
      using assms Some queue_inv_prefix [OF qi] st True
      by (auto simp: handlerVoting_step_RecvQuit [OF Some True nc w] good_def client_inv_def
          routed_def ended_inv_def split: option.splits)
  qed
qed

lemma good_handler_ping:
  assumes "good c"
  shows "handler_step RecvPingChan c = NotReady \<or>
         (\<exists>c'. handler_step RecvPingChan c = Next c' \<and> good c')"
proof (cases "go_handler c")
  case None
  then show ?thesis by (simp add: handler_step_NotReady)
next
  case (Some h)
  show ?thesis
  proof (cases "handler_ready RecvPingChan h c")
    case False
    then show ?thesis using Some by (simp add: handler_step_blocked)
  next
    case True
    then obtain d where d: "pingChan h = After d" "d \<le> now c"
      by (auto simp: handler_ready_def split: timer.splits)
    show ?thesis
      using assms Some
      by (auto simp: handler_step_RecvPingChan [OF Some d] good_def client_inv_def
          routed_def ended_inv_def split: option.splits)
  qed
qed

lemma good_handler_reset:
  assumes "good c"
  shows "handler_step (RecvPingChanReset ch) c = NotReady \<or>
         (\<exists>c'. handler_step (RecvPingChanReset ch) c = Next c' \<and> good c')"
proof (cases "go_handler c")
  case None
  then show ?thesis by (simp add: handler_step_NotReady)
next
  case (Some h)
  show ?thesis
  proof (cases "ch \<in> set (pingChanReset c)")
    case False
    then show ?thesis using Some by (simp add: handler_step_blocked handler_ready_def)
  next
    case True
    show ?thesis
      using assms Some
      by (auto simp: handler_step_RecvPingChanReset [OF Some True] good_def client_inv_def
          routed_def ended_inv_def split: option.splits)
  qed
qed

lemma good_Stop:
  assumes "good c"
  shows "\<exists>c'. Stop c = Inr c' \<and> good c' \<and> quit c' \<and> probes c' = probes c \<and>
           pingChanReset c' = pingChanReset c \<and> now c' = now c"
  using Stop_inv [of c] assms by (auto simp: good_def routed_def)

lemma good_fields:
  "good c \<Longrightarrow> good (c\<lparr>probes := ps, pingChanReset := rs\<rparr>)"
  "good c \<Longrightarrow> good (c\<lparr>probes := ps\<rparr>)"
  by (auto simp: good_def client_inv_def routed_def ended_inv_def split: option.splits)

lemma good_probe_response:
  assumes "good c"
  shows "probe_response i failed c = NotReady \<or>
         (\<exists>c'. probe_response i failed c = Next c' \<and> good c')"
proof (cases failed)
  case True
  from good_Stop [OF assms] obtain c1 where "Stop c = Inr c1" "good c1" by blast
  then show ?thesis using True good_fields(1) [of c1]
    by (auto simp: probe_response_def)
next
  case False
  then show ?thesis using assms good_fields(1) [of c]
    by (auto simp: probe_response_def)
qed

lemma good_probe_timeout:
  assumes "good c"
  shows "probe_timeout i c = NotReady \<or> (\<exists>c'. probe_timeout i c = Next c' \<and> good c')"
proof -
  from good_Stop [OF assms] obtain c1 where "Stop c = Inr c1" "good c1" by blast
  then show ?thesis using good_fields(2) [of c1]
    by (auto simp: probe_timeout_def)
qed

lemma good_step:
  assumes "good c"
  shows "step D a c = NotReady \<or> (\<exists>c'. step D a c = Next c' \<and> good c')"
proof (cases a)
  case (Advance d)
  then show ?thesis using good_Advance [OF assms] by simp
next
  case (Notify cb pk)
  then show ?thesis using good_callback [OF assms] by simp
next
  case HandlerDequeue
  then show ?thesis using good_handler_dequeue [OF assms] by simp
next
  case HandlerQuit
  then show ?thesis using good_handler_quit [OF assms] by simp
next
  case HandlerPingChan
  then show ?thesis using good_handler_ping [OF assms] by simp
next
  case (HandlerPingChanReset ch)
  then show ?thesis using good_handler_reset [OF assms] by simp
next
  case VotingDequeue
  then show ?thesis using good_voting_dequeue [OF assms] by simp
next
  case VotingQuit
  then show ?thesis using good_voting_quit [OF assms] by simp
next
  case CallStop
  then show ?thesis using good_Stop [OF assms] by auto
next
  case (ProbeResponse i failed)
  then show ?thesis using good_probe_response [OF assms] by simp
next
  case (ProbeTimeout i)
  then show ?thesis using good_probe_timeout [OF assms] by simp
qed

lemma good_run:
  assumes "good c"
  shows "run D acts c = NotReady \<or> (\<exists>c'. run D acts c = Next c' \<and> good c')"
  using assms
proof (induction acts arbitrary: c)
  case Nil
  then show ?case by simp
next
  case (Cons a acts)
  from good_step [OF Cons.prems, of D a] show ?case
  proof
    assume "step D a c = NotReady"
    then show ?thesis by simp
  next
    assume "\<exists>c'. step D a c = Next c' \<and> good c'"
    then obtain c1 where c1: "step D a c = Next c1" "good c1" by blast
    from Cons.IH [OF c1(2)] show ?thesis using c1(1) by simp
  qed
qed

lemma session_good:
  assumes "session D net srv acts = Next c"
  shows "good c"
proof -
  from assms obtain err c0 where s: "Start srv (NewRPCClientConfig net) = Some (err, c0)"
    and r: "run D acts c0 = Next c"
    by (auto simp: session_def split: option.splits)
  have "good c0" using Start_inv [OF s] Start_routed [OF s] by (simp add: good_def)
  from good_run [OF this, of D acts] r show ?thesis by simp
qed

lemma drain_general:
  assumes "good c" "go_handler c = Some h" "length (notifications (qv h)) = k"
  shows "\<exists>c' h'. run D (replicate k HandlerDequeue) c = Next c' \<and>
           go_handler c' = Some h' \<and> notifications (qv h') = [] \<and>
           received (dequeueNotification c') = enqueueNotification c \<and>
           enqueueNotification c' = enqueueNotification c"
  using assms
proof (induction k arbitrary: c h)
  case 0
  then show ?case by (auto simp: good_def client_inv_def queue_inv_def)
next
  case (Suc k)
  from Suc.prems have qi: "queue_inv (enqueueNotification c) (dequeueNotification c) (qv h)"
    by (auto simp: good_def client_inv_def)
  from Suc.prems(3) have ne: "notifications (qv h) \<noteq> []" by auto
  with qi have dq: "dequeue (qv h)" and nx: "nxt (qv h) = hd (notifications (qv h))"
    by (auto simp: queue_inv_def)
  let ?c1 = "c\<lparr>dequeueNotification :=
                     (dequeueNotification c)\<lparr>received :=
                        received (dequeueNotification c) @ [nxt (qv h)]\<rparr>,
                   go_handler := Some (h\<lparr>qv := (qv h)\<lparr>notifications := tl (notifications (qv h)),
                     nxt := (if tl (notifications (qv h)) = [] then nxt (qv h)
                             else hd (tl (notifications (qv h)))),
                     dequeue := (tl (notifications (qv h)) \<noteq> [])\<rparr>\<rparr>)\<rparr>"
  have st: "step D HandlerDequeue c = Next ?c1"
    using handler_step_SendDequeue [OF Suc.prems(2) qi dq] by simp
  from good_step [OF Suc.prems(1), of D HandlerDequeue] st have g1: "good ?c1" by simp
  have len: "length (notifications (qv (h\<lparr>qv := (qv h)\<lparr>notifications := tl (notifications (qv h)),
                     nxt := (if tl (notifications (qv h)) = [] then nxt (qv h)
                             else hd (tl (notifications (qv h)))),
                     dequeue := (tl (notifications (qv h)) \<noteq> [])\<rparr>\<rparr>))) = k"
    using Suc.prems(3) by simp
  from Suc.IH [OF g1 _ len] obtain c' h' where
    r: "run D (replicate k HandlerDequeue) ?c1 = Next c'" "go_handler c' = Some h'"
       "notifications (qv h') = []"
       "received (dequeueNotification c') = enqueueNotification ?c1"
       "enqueueNotification c' = enqueueNotification ?c1"
    by auto
  show ?case using st r by simp
qed

lemma drain_voting:
  assumes "good c" "go_handlerVoting c = Some q" "length (notifications q) = k"
  shows "\<exists>c' q'. run D (replicate k VotingDequeue) c = Next c' \<and>
           go_handlerVoting c' = Some q' \<and> notifications q' = [] \<and>
           received (dequeueVotingNotification c') = enqueueVotingNotification c \<and>
           enqueueVotingNotification c' = enqueueVotingNotification c"
  using assms
proof (induction k arbitrary: c q)
  case 0
  then show ?case by (auto simp: good_def client_inv_def queue_inv_def)
next
  case (Suc k)
  from Suc.prems have qi:
    "queue_inv (enqueueVotingNotification c) (dequeueVotingNotification c) q"
    by (auto simp: good_def client_inv_def)
  from Suc.prems(3) have ne: "notifications q \<noteq> []" by auto
  with qi have dq: "dequeue q"
    by (auto simp: queue_inv_def)
  let ?q1 = "q\<lparr>notifications := tl (notifications q),
                     nxt := (if tl (notifications q) = [] then nxt q
                             else hd (tl (notifications q))),
                     dequeue := (tl (notifications q) \<noteq> [])\<rparr>"
  let ?c1 = "c\<lparr>dequeueVotingNotification :=
                     (dequeueVotingNotification c)\<lparr>received :=
                        received (dequeueVotingNotification c) @ [nxt q]\<rparr>,
                   go_handlerVoting := Some ?q1\<rparr>"
  have st: "step D VotingDequeue c = Next ?c1"
    using handlerVoting_step_SendDequeue [OF Suc.prems(2) qi dq] by simp
  from good_step [OF Suc.prems(1), of D VotingDequeue] st have g1: "good ?c1" by simp
  have len: "length (notifications ?q1) = k"
    using Suc.prems(3) by simp
  from Suc.IH [OF g1 _ len] obtain c' q' where
    r: "run D (replicate k VotingDequeue) ?c1 = Next c'" "go_handlerVoting c' = Some q'"
       "notifications q' = []"
       "received (dequeueVotingNotification c') = enqueueVotingNotification ?c1"
       "enqueueVotingNotification c' = enqueueVotingNotification ?c1"
    by auto
  show ?case using st r by simp
qed

lemma list_all_prefix: "prefix xs ys \<Longrightarrow> list_all P ys \<Longrightarrow> list_all P xs"
  by (auto simp: prefix_def)

lemma good_received_prefix:
  assumes "good c"
  shows "prefix (received (dequeueNotification c)) (enqueueNotification c)"
    and "prefix (received (dequeueVotingNotification c)) (enqueueVotingNotification c)"
  using assms
  by (auto simp: good_def client_inv_def ended_inv_def dest: queue_inv_prefix
      split: option.splits)


lemma session_never_panics: "session D net srv acts \<noteq> Panicked p"
proof -
  have "run D acts c0 \<noteq> Panicked p"
    if s: "Start srv (NewRPCClientConfig net) = Some (err, c0)" for err and c0 :: "'a client"
  proof -
    have "good c0" using Start_inv [OF s] Start_routed [OF s] by (simp add: good_def)
    from good_run [OF this, of D acts] show ?thesis by auto
  qed
  then show ?thesis by (auto simp: session_def split: option.splits)
qed

lemmas eval_defs = session_def Start_def NewRPCClientConfig_def Disconnect_def
  required_compat requiredChainServerAPI_def version_lookup_def handler_init_def queue_init_def
  callback_step_def handler_step_def handlerVoting_step_def handler_ready_def queue_ready_def
  handler_comm_def handlerVoting_comm_def handler_body_def handlerVoting_body_def
  enqueue_case_def dequeue_case_def enqueue_closed_case_def send_chan_def close_chan_def
  handler_exit_def handlerVoting_exit_def wg_Done_def Stop_def probe_response_def
  probe_timeout_def remove_nth_def Minute_def Second_def
  onBlockConnected_def onBlockDisconnected_def onWinningTickets_def
  general_stream_def voting_stream_def Let_def

subsection \<open>Stop\<close>

text \<open>
  \<open>Stop\<close> is idempotent. The mutex \<open>quitMtx\<close> makes concurrent calls run one after the
  other, so a later call is a call on the client the earlier one returned. In every
  client state in which \<open>quit\<close> is already closed \<open>Stop\<close> changes nothing, and whenever a
  call of \<open>Stop\<close> returns, \<open>quit\<close> is closed and a further call returns the client
  unchanged: the teardown runs in the first call only.
\<close>

lemma Stop_again_no_op:
  "(quit c \<longrightarrow> Stop c = Inr c) \<and>
   (\<forall>c'. Stop c = Inr c' \<longrightarrow> quit c' \<and> Stop c' = Inr c')"
  by (auto simp: Stop_def Let_def split: if_splits sum.splits)

text \<open>The two parts of \<open>Start\<close> make up \<open>Start\<close>.\<close>

lemma Start_split:
  "Start srv c =
     (case Start_checks srv c of
        None \<Rightarrow> None
      | Some (None, c1) \<Rightarrow> Some (None, Start_launch c1)
      | Some (Some e, c1) \<Rightarrow> Some (Some e, c1))"
  by (simp add: Start_def Start_checks_def Start_launch_def Let_def
      split: connect_result.splits sum.splits)

text \<open>
  Claim C3. The claim is that \<open>Stop\<close> is idempotent, so that exactly one teardown runs
  and no channel is ever closed twice. The first part holds (\<open>Stop_again_no_op\<close>), and in
  a session, where \<open>Start\<close> has returned before any other call, no step panics
  (\<open>session_never_panics\<close>). The code does not keep the second part in general.
  \<open>Stop\<close> closes the output channels when \<open>started\<close> is false, on the ground that no
  loop exists to do it; but \<open>Start\<close> never tests \<open>quit\<close> and holds the mutex only
  around \<open>c.started = true\<close>. When \<open>Stop\<close> runs after the checks of \<open>Start\<close> have passed
  and before that assignment, it closes both output channels; \<open>Start\<close> then sets
  \<open>started\<close> and launches the loops; each loop finds \<open>quit\<close> closed, leaves its loop and
  closes its output channel a second time, which panics.
\<close>

theorem Stop_during_Start_closes_twice:
  "(case Start_with_Stop
           \<lparr>connect = ConnectOk, getCurrentNet = Inr 1,
            version = Inr [''fnodjsonrpcapi'' \<mapsto> \<lparr>Major = 5, Minor = 0, Patch = 0\<rparr>]\<rparr>
           (NewRPCClientConfig 1 :: unit client) of
      Next c \<Rightarrow>
        started c \<and> quit c \<and> closed (dequeueNotification c) \<and>
        closed (dequeueVotingNotification c) \<and>
        step Map.empty HandlerQuit c = Panicked CloseOfClosedChannel \<and>
        step Map.empty VotingQuit c = Panicked CloseOfClosedChannel
    | NotReady \<Rightarrow> False
    | Panicked p \<Rightarrow> False)"
  by (simp add: eval_defs Start_with_Stop_def Start_checks_def Start_launch_def)

text \<open>
  Claim C9. A call of \<open>Stop\<close> that finds \<open>quit\<close> open closes both output channels
  itself when the client was never started, and leaves both as they are when it was
  started (then the two loops close them when they end).
\<close>

theorem Stop_closes_outputs_unless_started:
  assumes "\<not> quit c"
  shows "(\<not> started c \<and> \<not> closed (dequeueNotification c) \<and>
            \<not> closed (dequeueVotingNotification c) \<longrightarrow>
           Stop c = Inr (c\<lparr>quit := True, transport := ShutDown,
                           dequeueNotification := (dequeueNotification c)\<lparr>closed := True\<rparr>,
                           dequeueVotingNotification :=
                             (dequeueVotingNotification c)\<lparr>closed := True\<rparr>\<rparr>)) \<and>
         (started c \<longrightarrow> Stop c = Inr (c\<lparr>quit := True, transport := ShutDown\<rparr>))"
  using assms by (simp add: Stop_def close_chan_def)

theorem Stop_closes_outputs_unless_started_witness:
  "\<not> quit (NewRPCClientConfig 1 :: unit client) \<and>
   \<not> started (NewRPCClientConfig 1 :: unit client) \<and>
   \<not> closed (dequeueNotification (NewRPCClientConfig 1 :: unit client)) \<and>
   \<not> closed (dequeueVotingNotification (NewRPCClientConfig 1 :: unit client)) \<and>
   Stop (NewRPCClientConfig 1 :: unit client) =
     Inr ((NewRPCClientConfig 1)\<lparr>quit := True, transport := ShutDown,
            dequeueNotification := \<lparr>received = [], closed = True\<rparr>,
            dequeueVotingNotification := \<lparr>received = [], closed = True\<rparr>\<rparr>) \<and>
   \<not> quit ((NewRPCClientConfig 1 :: unit client)\<lparr>started := True\<rparr>) \<and>
   started ((NewRPCClientConfig 1 :: unit client)\<lparr>started := True\<rparr>) \<and>
   Stop ((NewRPCClientConfig 1 :: unit client)\<lparr>started := True\<rparr>) =
     Inr ((NewRPCClientConfig 1)\<lparr>started := True, quit := True, transport := ShutDown\<rparr>)"
  using Stop_closes_outputs_unless_started [of "NewRPCClientConfig 1 :: unit client"]
    Stop_closes_outputs_unless_started [of "(NewRPCClientConfig 1 :: unit client)\<lparr>started := True\<rparr>"]
  by (simp add: NewRPCClientConfig_def)

subsection \<open>Start\<close>

text \<open>
  Claim C7. When \<open>Connect\<close> has succeeded and the server reports a network other than
  \<open>chainParams.Net\<close>, \<open>Start\<close> returns the error "mismatched networks" (a Protocol
  error in the terms of the specification), and the client it leaves differs from
  the one it was called on in the transport only, which is disconnected: \<open>started\<close>
  is not set and no loop is running.
\<close>

theorem Start_mismatched_networks:
  assumes "connect srv = ConnectOk" and "getCurrentNet srv = Inr net"
    and "net \<noteq> chainParams_Net c"
  shows "Start srv c = Some (Some E_mismatched_networks, c\<lparr>transport := Disconnected\<rparr>)"
  using assms by (simp add: Start_def Disconnect_def)

theorem Start_mismatched_networks_witness:
  "connect \<lparr>connect = ConnectOk, getCurrentNet = Inr 2, version = Inl ''down''\<rparr> = ConnectOk \<and>
   getCurrentNet \<lparr>connect = ConnectOk, getCurrentNet = Inr 2, version = Inl ''down''\<rparr> = Inr 2 \<and>
   2 \<noteq> chainParams_Net (NewRPCClientConfig 1 :: unit client) \<and>
   Start \<lparr>connect = ConnectOk, getCurrentNet = Inr 2, version = Inl ''down''\<rparr>
     (NewRPCClientConfig 1 :: unit client) =
     Some (Some E_mismatched_networks, (NewRPCClientConfig 1)\<lparr>transport := Disconnected\<rparr>) \<and>
   \<not> started ((NewRPCClientConfig 1 :: unit client)\<lparr>transport := Disconnected\<rparr>) \<and>
   go_handler ((NewRPCClientConfig 1 :: unit client)\<lparr>transport := Disconnected\<rparr>) = None \<and>
   go_handlerVoting ((NewRPCClientConfig 1 :: unit client)\<lparr>transport := Disconnected\<rparr>) = None"
  using Start_mismatched_networks
    [of "\<lparr>connect = ConnectOk, getCurrentNet = Inr 2, version = Inl ''down''\<rparr>" 2
        "NewRPCClientConfig 1 :: unit client"]
  by (simp add: NewRPCClientConfig_def)

text \<open>
  Claim C6. With the required version 5.0.0, after a successful \<open>Connect\<close> and a
  matching network: a server that advertises API version 4.9.0 makes \<open>Start\<close> return
  the incompatible-version error (a Protocol error in the terms of the
  specification) and disconnect; a server that advertises 5.2.3 passes, \<open>Start\<close>
  returns \<open>nil\<close> and the client is started; and in general \<open>Start\<close> succeeds exactly
  when the advertised major version is 5, since every minor and patch number is at
  least 0.
\<close>

theorem Start_API_version_check:
  assumes "connect srv = ConnectOk" and "getCurrentNet srv = Inr (chainParams_Net c)"
    and "version srv = Inr versions"
  shows "(versions ''fnodjsonrpcapi'' = Some \<lparr>Major = 4, Minor = 9, Patch = 0\<rparr> \<longrightarrow>
            Start srv c = Some (Some (E_incompatible_API \<lparr>major = 4, minor = 9, patch = 0\<rparr>
                                        \<lparr>major = 5, minor = 0, patch = 0\<rparr>),
                                c\<lparr>transport := Disconnected\<rparr>)) \<and>
         (versions ''fnodjsonrpcapi'' = Some \<lparr>Major = 5, Minor = 2, Patch = 3\<rparr> \<longrightarrow>
            (\<exists>c'. Start srv c = Some (None, c') \<and> started c')) \<and>
         ((\<exists>c'. Start srv c = Some (None, c')) \<longleftrightarrow>
            Major (version_lookup versions ''fnodjsonrpcapi'') = 5)"
  using assms
  by (auto simp: Start_def required_compat version_lookup_def Disconnect_def Let_def
        requiredChainServerAPI_def)

theorem Start_API_version_check_witness:
  "Start \<lparr>connect = ConnectOk, getCurrentNet = Inr 1,
          version = Inr [''fnodjsonrpcapi'' \<mapsto> \<lparr>Major = 4, Minor = 9, Patch = 0\<rparr>]\<rparr>
     (NewRPCClientConfig 1 :: unit client) =
     Some (Some (E_incompatible_API \<lparr>major = 4, minor = 9, patch = 0\<rparr>
                   \<lparr>major = 5, minor = 0, patch = 0\<rparr>),
           (NewRPCClientConfig 1)\<lparr>transport := Disconnected\<rparr>) \<and>
   (\<exists>c'. Start \<lparr>connect = ConnectOk, getCurrentNet = Inr 1,
                version = Inr [''fnodjsonrpcapi'' \<mapsto> \<lparr>Major = 5, Minor = 2, Patch = 3\<rparr>]\<rparr>
           (NewRPCClientConfig 1 :: unit client) = Some (None, c') \<and> started c')"
  using Start_API_version_check
    [of "\<lparr>connect = ConnectOk, getCurrentNet = Inr 1,
          version = Inr [''fnodjsonrpcapi'' \<mapsto> \<lparr>Major = 4, Minor = 9, Patch = 0\<rparr>]\<rparr>"
        "NewRPCClientConfig 1 :: unit client"
        "[''fnodjsonrpcapi'' \<mapsto> \<lparr>Major = 4, Minor = 9, Patch = 0\<rparr>]"]
    Start_API_version_check
    [of "\<lparr>connect = ConnectOk, getCurrentNet = Inr 1,
          version = Inr [''fnodjsonrpcapi'' \<mapsto> \<lparr>Major = 5, Minor = 2, Patch = 3\<rparr>]\<rparr>"
        "NewRPCClientConfig 1 :: unit client"
        "[''fnodjsonrpcapi'' \<mapsto> \<lparr>Major = 5, Minor = 2, Patch = 3\<rparr>]"]
  by (simp add: NewRPCClientConfig_def)

text \<open>
  Claim C10. When the \<open>Version\<close> request fails, its error is not returned:
  \<open>serverAPI\<close> keeps its zero value 0.0.0, the compatibility check fails, and \<open>Start\<close>
  returns the incompatible-version error that names 0.0.0 and 5.0.0, after
  disconnecting.
\<close>

theorem Start_version_error_discarded:
  assumes "connect srv = ConnectOk" and "getCurrentNet srv = Inr (chainParams_Net c)"
    and "version srv = Inl e"
  shows "Start srv c =
           Some (Some (E_incompatible_API \<lparr>major = 0, minor = 0, patch = 0\<rparr>
                         \<lparr>major = 5, minor = 0, patch = 0\<rparr>),
                 c\<lparr>transport := Disconnected\<rparr>)"
  using assms
  by (simp add: Start_def Disconnect_def required_compat semver_zero_def
      requiredChainServerAPI_def)

theorem Start_version_error_discarded_witness:
  "Start \<lparr>connect = ConnectOk, getCurrentNet = Inr 1, version = Inl ''timeout''\<rparr>
     (NewRPCClientConfig 1 :: unit client) =
     Some (Some (E_incompatible_API \<lparr>major = 0, minor = 0, patch = 0\<rparr>
                   \<lparr>major = 5, minor = 0, patch = 0\<rparr>),
           (NewRPCClientConfig 1)\<lparr>transport := Disconnected\<rparr>)"
  using Start_version_error_discarded
    [of "\<lparr>connect = ConnectOk, getCurrentNet = Inr 1, version = Inl ''timeout''\<rparr>"
        "NewRPCClientConfig 1 :: unit client" "''timeout''"]
  by (simp add: NewRPCClientConfig_def)

subsection \<open>The callbacks\<close>

text \<open>
  Claim C5. For every map of tickets, \<open>onSpentAndMissedTickets\<close> collects the tickets
  whose flag is false, each once. When there is none it returns without sending;
  otherwise it sends one \<open>missedTickets\<close> value with exactly these tickets on
  \<open>enqueueNotification\<close>, and when the loop of \<open>handler\<close> takes it, this one value is
  what the queue receives.
\<close>

theorem onSpentAndMissedTickets_unspent_only:
  assumes "distinct (map fst tickets)"
  shows "\<exists>missed. distinct missed \<and> set missed = {t. map_of tickets t = Some False} \<and>
           onSpentAndMissedTickets blockHash height sdiff tickets =
             (if missed = [] then None
              else (Some (EnqueueNotification, missedTickets blockHash height missed)
                     :: (intake \<times> 'tx notification) option)) \<and>
           (\<forall>(c :: 'tx client) h D. go_handler c = Some h \<and> enqueue (qv h) \<longrightarrow>
              (\<exists>c'. callback_step D (OnSpentAndMissedTickets blockHash height sdiff tickets)
                       IntakeAccepted c = Next c' \<and>
                    enqueueNotification c' = enqueueNotification c @
                      (if missed = [] then []
                       else [Some (missedTickets blockHash height missed)]) \<and>
                    enqueueVotingNotification c' = enqueueVotingNotification c))"
proof -
  let ?missed = "map fst (filter (\<lambda>e. \<not> snd e) tickets)"
  have d: "distinct ?missed"
    using assms by (simp add: distinct_map_filter)
  have s: "set ?missed = {t. map_of tickets t = Some False}"
    by (rule set_unspent [OF assms])
  have o: "onSpentAndMissedTickets blockHash height sdiff tickets =
             (if ?missed = [] then None
              else (Some (EnqueueNotification, missedTickets blockHash height ?missed)
                      :: (intake \<times> 'tx notification) option))"
    by (simp add: onSpentAndMissedTickets_def missed_of_eq)
  have st: "\<exists>c'. callback_step D (OnSpentAndMissedTickets blockHash height sdiff tickets)
                       IntakeAccepted c = Next c' \<and>
                    enqueueNotification c' = enqueueNotification c @
                      (if ?missed = [] then []
                       else [Some (missedTickets blockHash height ?missed)]) \<and>
                    enqueueVotingNotification c' = enqueueVotingNotification c"
    if "go_handler c = Some h" "enqueue (qv h)" for c :: "'tx client" and h D
    using that by (simp add: callback_step_def o handler_step_RecvEnqueue)
  show ?thesis
    using d s o st by blast
qed

theorem onSpentAndMissedTickets_unspent_only_witness:
  "distinct (map fst [([1], False), ([2], True)] :: hash list) \<and>
   onSpentAndMissedTickets [170] 7 0 [([1], False), ([2], True)] =
     (Some (EnqueueNotification, missedTickets [170] 7 [[1]]) :: (intake \<times> unit notification) option) \<and>
   distinct (map fst [([1], True), ([2], True)] :: hash list) \<and>
   onSpentAndMissedTickets [170] 7 0 [([1], True), ([2], True)] =
     (None :: (intake \<times> unit notification) option)"
  using onSpentAndMissedTickets_unspent_only
      [of "[([1], False), ([2], True)]" "[170]" 7 0, where ?'tx = unit]
    onSpentAndMissedTickets_unspent_only
      [of "[([1], True), ([2], True)]" "[170]" 7 0, where ?'tx = unit]
  by (simp add: onSpentAndMissedTickets_def)

text \<open>
  Claim C4. In every state of every session, every value accepted by or received from
  the general queue is a notification other than \<open>winningTickets\<close>, and every value
  accepted by or received from the voting queue is a \<open>winningTickets\<close> notification.
  A callback sends on \<open>enqueueVotingNotification\<close> exactly when it is
  \<open>onWinningTickets\<close>, and exactly then its value is a \<open>winningTickets\<close> notification;
  every other callback that sends does so on \<open>enqueueNotification\<close>. While the voting
  loop runs, the send of \<open>onWinningTickets\<close> can be taken, and then the value is added
  to the voting queue and the general queue is left as it is.

  Each of the seven callbacks is given with what it sends: \<open>onBlockConnected\<close>,
  \<open>onBlockDisconnected\<close>, \<open>onReorganization\<close> and \<open>onStakeDifficulty\<close> always send
  the notification of their kind on \<open>enqueueNotification\<close>; \<open>onRelevantTxAccepted\<close>
  does so whenever the transaction decodes and \<open>onSpentAndMissedTickets\<close> whenever a
  ticket is unspent; \<open>onWinningTickets\<close> always sends on \<open>enqueueVotingNotification\<close>.
  While the loop of its queue runs, every such send can be taken: the value is then
  added to that queue, the other queue is left as it is, and a consumer that goes on
  receiving gets the value as the last one delivered on that stream.
\<close>

theorem winningTickets_routing:
  assumes "session D net srv acts = Next c"
  shows "list_all general_value (enqueueNotification c) \<and>
         list_all general_value (received (dequeueNotification c)) \<and>
         list_all voting_value (enqueueVotingNotification c) \<and>
         list_all voting_value (received (dequeueVotingNotification c)) \<and>
         (\<forall>cb ch n. ntfnCallbacks D cb = Some (ch, n) \<longrightarrow>
            (ch = EnqueueVotingNotification) = is_winningTickets n \<and>
            (ch = EnqueueNotification) = (\<not> is_winningTickets n) \<and>
            is_winningTickets n = (\<exists>hash height tickets. cb = OnWinningTickets hash height tickets)) \<and>
         (\<forall>q hash height tickets. go_handlerVoting c = Some q \<longrightarrow>
            (\<exists>c'. step D (Notify (OnWinningTickets hash height tickets) IntakeAccepted) c = Next c' \<and>
                  enqueueVotingNotification c' =
                    enqueueVotingNotification c @ [Some (winningTickets hash height tickets)] \<and>
                  enqueueNotification c' = enqueueNotification c)) \<and>
         (\<forall>header transactions.
            ntfnCallbacks D (OnBlockConnected header transactions) =
              Some (EnqueueNotification, blockConnected header transactions)) \<and>
         (\<forall>header.
            ntfnCallbacks D (OnBlockDisconnected header) =
              Some (EnqueueNotification, blockDisconnected header)) \<and>
         (\<forall>transaction.
            ntfnCallbacks D (OnRelevantTxAccepted transaction) =
              (case D transaction of
                 None \<Rightarrow> None
               | Some msgTx \<Rightarrow> Some (EnqueueNotification, relevantTxAccepted msgTx))) \<and>
         (\<forall>oldHash oldHeight newHash newHeight.
            ntfnCallbacks D (OnReorganization oldHash oldHeight newHash newHeight) =
              Some (EnqueueNotification,
                    reorganization oldHash (scast oldHeight) newHash (scast newHeight))) \<and>
         (\<forall>blockHash height sdiff tickets.
            ntfnCallbacks D (OnSpentAndMissedTickets blockHash height sdiff tickets) =
              (if missed_of tickets [] = [] then None
               else Some (EnqueueNotification,
                          missedTickets blockHash height (missed_of tickets [])))) \<and>
         (\<forall>hash height stakeDiff.
            ntfnCallbacks D (OnStakeDifficulty hash height stakeDiff) =
              Some (EnqueueNotification, stakeDifficulty hash height stakeDiff)) \<and>
         (\<forall>hash height tickets.
            ntfnCallbacks D (OnWinningTickets hash height tickets) =
              Some (EnqueueVotingNotification, winningTickets hash height tickets)) \<and>
         (\<forall>h cb n. go_handler c = Some h \<and> ntfnCallbacks D cb = Some (EnqueueNotification, n) \<longrightarrow>
            (\<exists>c'. step D (Notify cb IntakeAccepted) c = Next c' \<and>
                  enqueueNotification c' = enqueueNotification c @ [Some n] \<and>
                  enqueueVotingNotification c' = enqueueVotingNotification c \<and>
                  (\<exists>c''. run D (replicate (Suc (length (notifications (qv h)))) HandlerDequeue) c' =
                           Next c'' \<and>
                         received (dequeueNotification c'') = enqueueNotification c @ [Some n]))) \<and>
         (\<forall>q cb n. go_handlerVoting c = Some q \<and>
              ntfnCallbacks D cb = Some (EnqueueVotingNotification, n) \<longrightarrow>
            (\<exists>c'. step D (Notify cb IntakeAccepted) c = Next c' \<and>
                  enqueueVotingNotification c' = enqueueVotingNotification c @ [Some n] \<and>
                  enqueueNotification c' = enqueueNotification c \<and>
                  (\<exists>c''. run D (replicate (Suc (length (notifications q))) VotingDequeue) c' =
                           Next c'' \<and>
                         received (dequeueVotingNotification c'') =
                           enqueueVotingNotification c @ [Some n])))"
proof -
  note g = session_good [OF assms]
  from g have r: "list_all general_value (enqueueNotification c)"
    "list_all voting_value (enqueueVotingNotification c)"
    by (auto simp: good_def routed_def)
  note p = good_received_prefix [OF g]
  have d: "list_all general_value (received (dequeueNotification c))"
    "list_all voting_value (received (dequeueVotingNotification c))"
    using list_all_prefix [OF p(1) r(1)] list_all_prefix [OF p(2) r(2)] by simp_all
  have cbs: "\<forall>cb ch n. ntfnCallbacks D cb = Some (ch, n) \<longrightarrow>
            (ch = EnqueueVotingNotification) = is_winningTickets n \<and>
            (ch = EnqueueNotification) = (\<not> is_winningTickets n) \<and>
            is_winningTickets n = (\<exists>hash height tickets. cb = OnWinningTickets hash height tickets)"
    using ntfnCallbacks_routing by blast
  have acc: "\<exists>c'. step D (Notify (OnWinningTickets hash height tickets) IntakeAccepted) c = Next c' \<and>
                  enqueueVotingNotification c' =
                    enqueueVotingNotification c @ [Some (winningTickets hash height tickets)] \<and>
                  enqueueNotification c' = enqueueNotification c"
    if q: "go_handlerVoting c = Some q" for q hash height tickets
  proof -
    from g q have "enqueue q" by (auto simp: good_def client_inv_def queue_inv_def)
    from handlerVoting_step_RecvEnqueue [OF q this] show ?thesis
      by (simp add: callback_step_def onWinningTickets_def)
  qed
  have k1: "\<forall>header transactions.
            ntfnCallbacks D (OnBlockConnected header transactions) =
              Some (EnqueueNotification, blockConnected header transactions)"
    by (simp add: onBlockConnected_def)
  have k2: "\<forall>header.
            ntfnCallbacks D (OnBlockDisconnected header) =
              Some (EnqueueNotification, blockDisconnected header)"
    by (simp add: onBlockDisconnected_def)
  have k3: "\<forall>transaction.
            ntfnCallbacks D (OnRelevantTxAccepted transaction) =
              (case D transaction of
                 None \<Rightarrow> None
               | Some msgTx \<Rightarrow> Some (EnqueueNotification, relevantTxAccepted msgTx))"
    by (simp add: onRelevantTxAccepted_def)
  have k4: "\<forall>oldHash oldHeight newHash newHeight.
            ntfnCallbacks D (OnReorganization oldHash oldHeight newHash newHeight) =
              Some (EnqueueNotification,
                    reorganization oldHash (scast oldHeight) newHash (scast newHeight))"
    by (simp add: onReorganization_def)
  have k5: "\<forall>blockHash height sdiff tickets.
            ntfnCallbacks D (OnSpentAndMissedTickets blockHash height sdiff tickets) =
              (if missed_of tickets [] = [] then None
               else Some (EnqueueNotification,
                          missedTickets blockHash height (missed_of tickets [])))"
    by (simp add: onSpentAndMissedTickets_def Let_def)
  have k6: "\<forall>hash height stakeDiff.
            ntfnCallbacks D (OnStakeDifficulty hash height stakeDiff) =
              Some (EnqueueNotification, stakeDifficulty hash height stakeDiff)"
    by (simp add: onStakeDifficulty_def)
  have k7: "\<forall>hash height tickets.
            ntfnCallbacks D (OnWinningTickets hash height tickets) =
              Some (EnqueueVotingNotification, winningTickets hash height tickets)"
    by (simp add: onWinningTickets_def)
  have gen: "\<exists>c'. step D (Notify cb IntakeAccepted) c = Next c' \<and>
                  enqueueNotification c' = enqueueNotification c @ [Some n] \<and>
                  enqueueVotingNotification c' = enqueueVotingNotification c \<and>
                  (\<exists>c''. run D (replicate (Suc (length (notifications (qv h)))) HandlerDequeue) c' =
                           Next c'' \<and>
                         received (dequeueNotification c'') = enqueueNotification c @ [Some n])"
    if h: "go_handler c = Some h" and cb: "ntfnCallbacks D cb = Some (EnqueueNotification, n)"
    for h cb n
  proof -
    from g h have e: "enqueue (qv h)" by (auto simp: good_def client_inv_def queue_inv_def)
    let ?h1 = "h\<lparr>qv := enqueue_case (Some n) (qv h), pingChan := After (now c + Minute)\<rparr>"
    let ?c1 = "c\<lparr>enqueueNotification := enqueueNotification c @ [Some n],
                  go_handler := Some ?h1\<rparr>"
    have st: "step D (Notify cb IntakeAccepted) c = Next ?c1"
      using handler_step_RecvEnqueue [OF h e, of "Some n"] cb by (simp add: callback_step_def)
    from good_step [OF g, of D "Notify cb IntakeAccepted"] st have g1: "good ?c1" by simp
    have h1: "go_handler ?c1 = Some ?h1" by simp
    have len: "length (notifications (qv ?h1)) = Suc (length (notifications (qv h)))"
      by (simp add: enqueue_case_def Let_def)
    from drain_general [OF g1 h1 len, of D] st show ?thesis by auto
  qed
  have vot: "\<exists>c'. step D (Notify cb IntakeAccepted) c = Next c' \<and>
                  enqueueVotingNotification c' = enqueueVotingNotification c @ [Some n] \<and>
                  enqueueNotification c' = enqueueNotification c \<and>
                  (\<exists>c''. run D (replicate (Suc (length (notifications q))) VotingDequeue) c' =
                           Next c'' \<and>
                         received (dequeueVotingNotification c'') =
                           enqueueVotingNotification c @ [Some n])"
    if q: "go_handlerVoting c = Some q"
      and cb: "ntfnCallbacks D cb = Some (EnqueueVotingNotification, n)"
    for q cb n
  proof -
    from g q have e: "enqueue q" by (auto simp: good_def client_inv_def queue_inv_def)
    let ?q1 = "enqueue_case (Some n) q"
    let ?c1 = "c\<lparr>enqueueVotingNotification := enqueueVotingNotification c @ [Some n],
                  go_handlerVoting := Some ?q1\<rparr>"
    have st: "step D (Notify cb IntakeAccepted) c = Next ?c1"
      using handlerVoting_step_RecvEnqueue [OF q e, of "Some n"] cb
      by (simp add: callback_step_def)
    from good_step [OF g, of D "Notify cb IntakeAccepted"] st have g1: "good ?c1" by simp
    have q1: "go_handlerVoting ?c1 = Some ?q1" by simp
    have len: "length (notifications ?q1) = Suc (length (notifications q))"
      by (simp add: enqueue_case_def Let_def)
    from drain_voting [OF g1 q1 len, of D] st show ?thesis by auto
  qed
  have kinds: "(\<forall>header transactions.
            ntfnCallbacks D (OnBlockConnected header transactions) =
              Some (EnqueueNotification, blockConnected header transactions)) \<and>
         (\<forall>header.
            ntfnCallbacks D (OnBlockDisconnected header) =
              Some (EnqueueNotification, blockDisconnected header)) \<and>
         (\<forall>transaction.
            ntfnCallbacks D (OnRelevantTxAccepted transaction) =
              (case D transaction of
                 None \<Rightarrow> None
               | Some msgTx \<Rightarrow> Some (EnqueueNotification, relevantTxAccepted msgTx))) \<and>
         (\<forall>oldHash oldHeight newHash newHeight.
            ntfnCallbacks D (OnReorganization oldHash oldHeight newHash newHeight) =
              Some (EnqueueNotification,
                    reorganization oldHash (scast oldHeight) newHash (scast newHeight))) \<and>
         (\<forall>blockHash height sdiff tickets.
            ntfnCallbacks D (OnSpentAndMissedTickets blockHash height sdiff tickets) =
              (if missed_of tickets [] = [] then None
               else Some (EnqueueNotification,
                          missedTickets blockHash height (missed_of tickets [])))) \<and>
         (\<forall>hash height stakeDiff.
            ntfnCallbacks D (OnStakeDifficulty hash height stakeDiff) =
              Some (EnqueueNotification, stakeDifficulty hash height stakeDiff)) \<and>
         (\<forall>hash height tickets.
            ntfnCallbacks D (OnWinningTickets hash height tickets) =
              Some (EnqueueVotingNotification, winningTickets hash height tickets))"
    using k1 k2 k3 k4 k5 k6 k7 by (intro conjI)
  have old: "list_all general_value (enqueueNotification c) \<and>
         list_all general_value (received (dequeueNotification c)) \<and>
         list_all voting_value (enqueueVotingNotification c) \<and>
         list_all voting_value (received (dequeueVotingNotification c)) \<and>
         (\<forall>cb ch n. ntfnCallbacks D cb = Some (ch, n) \<longrightarrow>
            (ch = EnqueueVotingNotification) = is_winningTickets n \<and>
            (ch = EnqueueNotification) = (\<not> is_winningTickets n) \<and>
            is_winningTickets n = (\<exists>hash height tickets. cb = OnWinningTickets hash height tickets)) \<and>
         (\<forall>q hash height tickets. go_handlerVoting c = Some q \<longrightarrow>
            (\<exists>c'. step D (Notify (OnWinningTickets hash height tickets) IntakeAccepted) c = Next c' \<and>
                  enqueueVotingNotification c' =
                    enqueueVotingNotification c @ [Some (winningTickets hash height tickets)] \<and>
                  enqueueNotification c' = enqueueNotification c))"
    using r d cbs acc by blast
  have acc2: "(\<forall>h cb n. go_handler c = Some h \<and> ntfnCallbacks D cb = Some (EnqueueNotification, n) \<longrightarrow>
            (\<exists>c'. step D (Notify cb IntakeAccepted) c = Next c' \<and>
                  enqueueNotification c' = enqueueNotification c @ [Some n] \<and>
                  enqueueVotingNotification c' = enqueueVotingNotification c \<and>
                  (\<exists>c''. run D (replicate (Suc (length (notifications (qv h)))) HandlerDequeue) c' =
                           Next c'' \<and>
                         received (dequeueNotification c'') = enqueueNotification c @ [Some n]))) \<and>
         (\<forall>q cb n. go_handlerVoting c = Some q \<and>
              ntfnCallbacks D cb = Some (EnqueueVotingNotification, n) \<longrightarrow>
            (\<exists>c'. step D (Notify cb IntakeAccepted) c = Next c' \<and>
                  enqueueVotingNotification c' = enqueueVotingNotification c @ [Some n] \<and>
                  enqueueNotification c' = enqueueNotification c \<and>
                  (\<exists>c''. run D (replicate (Suc (length (notifications q))) VotingDequeue) c' =
                           Next c'' \<and>
                         received (dequeueVotingNotification c'') =
                           enqueueVotingNotification c @ [Some n])))"
    using gen vot by blast
  from old kinds acc2 show ?thesis by simp
qed

theorem winningTickets_routing_witness:
  "\<exists>c :: unit client.
     session Map.empty 1
        \<lparr>connect = ConnectOk, getCurrentNet = Inr 1,
         version = Inr [''fnodjsonrpcapi'' \<mapsto> \<lparr>Major = 5, Minor = 0, Patch = 0\<rparr>]\<rparr>
        [Notify (OnWinningTickets [1] 2 [[4]]) IntakeAccepted,
         Notify (OnBlockConnected [5] [[6]]) IntakeAccepted,
         VotingDequeue, HandlerDequeue] = Next c \<and>
     general_stream c =
       ([Some (blockConnected [5] [[6]])], [Some (blockConnected [5] [[6]])], False) \<and>
     voting_stream c =
       ([Some (winningTickets [1] 2 [[4]])], [Some (winningTickets [1] 2 [[4]])], False) \<and>
     list_all general_value (received (dequeueNotification c)) \<and>
     list_all voting_value (received (dequeueVotingNotification c))"
proof -
  obtain c :: "unit client" where c: "session Map.empty 1
        \<lparr>connect = ConnectOk, getCurrentNet = Inr 1,
         version = Inr [''fnodjsonrpcapi'' \<mapsto> \<lparr>Major = 5, Minor = 0, Patch = 0\<rparr>]\<rparr>
        [Notify (OnWinningTickets [1] 2 [[4]]) IntakeAccepted,
         Notify (OnBlockConnected [5] [[6]]) IntakeAccepted,
         VotingDequeue, HandlerDequeue] = Next c"
    and v: "general_stream c =
       ([Some (blockConnected [5] [[6]])], [Some (blockConnected [5] [[6]])], False)"
      "voting_stream c =
       ([Some (winningTickets [1] 2 [[4]])], [Some (winningTickets [1] 2 [[4]])], False)"
    by (simp add: eval_defs)
  from winningTickets_routing [OF c]
  have "list_all general_value (received (dequeueNotification c)) \<and>
        list_all voting_value (received (dequeueVotingNotification c))"
    by simp
  with c v show ?thesis by blast
qed

subsection \<open>The dispatch loops\<close>

text \<open>
  Claim C1, as amended. In every state of every session, for each of the two queues:
  while its loop runs, the values the consumer has received followed by the values in
  the buffer are exactly the values the loop has accepted, in the order of acceptance,
  so that nothing is lost, repeated or reordered, and a consumer that goes on receiving
  gets every accepted value; once the loop has ended, the consumer has received an
  initial segment of the accepted values. The values still in the buffer when the loop
  takes the \<open>quit\<close> case are not delivered.
\<close>

theorem delivery_fifo_until_quit:
  assumes "session D net srv acts = Next c"
  shows "(case go_handler c of
            Some h \<Rightarrow>
              received (dequeueNotification c) @ notifications (qv h) = enqueueNotification c \<and>
              (\<exists>c'. run D (replicate (length (notifications (qv h))) HandlerDequeue) c = Next c' \<and>
                    received (dequeueNotification c') = enqueueNotification c \<and>
                    enqueueNotification c' = enqueueNotification c)
          | None \<Rightarrow> prefix (received (dequeueNotification c)) (enqueueNotification c)) \<and>
         (case go_handlerVoting c of
            Some q \<Rightarrow>
              received (dequeueVotingNotification c) @ notifications q =
                enqueueVotingNotification c \<and>
              (\<exists>c'. run D (replicate (length (notifications q)) VotingDequeue) c = Next c' \<and>
                    received (dequeueVotingNotification c') = enqueueVotingNotification c \<and>
                    enqueueVotingNotification c' = enqueueVotingNotification c)
          | None \<Rightarrow> prefix (received (dequeueVotingNotification c))
                      (enqueueVotingNotification c))"
proof -
  note g = session_good [OF assms]
  have general: "case go_handler c of
            Some h \<Rightarrow>
              received (dequeueNotification c) @ notifications (qv h) = enqueueNotification c \<and>
              (\<exists>c'. run D (replicate (length (notifications (qv h))) HandlerDequeue) c = Next c' \<and>
                    received (dequeueNotification c') = enqueueNotification c \<and>
                    enqueueNotification c' = enqueueNotification c)
          | None \<Rightarrow> prefix (received (dequeueNotification c)) (enqueueNotification c)"
  proof (cases "go_handler c")
    case None
    then show ?thesis using g by (simp add: good_def client_inv_def ended_inv_def)
  next
    case (Some h)
    with g have "received (dequeueNotification c) @ notifications (qv h) = enqueueNotification c"
      by (simp add: good_def client_inv_def queue_inv_def)
    moreover from drain_general [OF g Some refl, of D]
    have "\<exists>c'. run D (replicate (length (notifications (qv h))) HandlerDequeue) c = Next c' \<and>
                    received (dequeueNotification c') = enqueueNotification c \<and>
                    enqueueNotification c' = enqueueNotification c"
      by blast
    ultimately show ?thesis using Some by simp
  qed
  have voting: "case go_handlerVoting c of
            Some q \<Rightarrow>
              received (dequeueVotingNotification c) @ notifications q =
                enqueueVotingNotification c \<and>
              (\<exists>c'. run D (replicate (length (notifications q)) VotingDequeue) c = Next c' \<and>
                    received (dequeueVotingNotification c') = enqueueVotingNotification c \<and>
                    enqueueVotingNotification c' = enqueueVotingNotification c)
          | None \<Rightarrow> prefix (received (dequeueVotingNotification c))
                      (enqueueVotingNotification c)"
  proof (cases "go_handlerVoting c")
    case None
    then show ?thesis using g by (simp add: good_def client_inv_def ended_inv_def)
  next
    case (Some q)
    with g have "received (dequeueVotingNotification c) @ notifications q =
                   enqueueVotingNotification c"
      by (simp add: good_def client_inv_def queue_inv_def)
    moreover from drain_voting [OF g Some refl, of D]
    have "\<exists>c'. run D (replicate (length (notifications q)) VotingDequeue) c = Next c' \<and>
                    received (dequeueVotingNotification c') = enqueueVotingNotification c \<and>
                    enqueueVotingNotification c' = enqueueVotingNotification c"
      by blast
    ultimately show ?thesis using Some by simp
  qed
  from general voting show ?thesis by simp
qed

theorem delivery_fifo_until_quit_witness:
  "\<exists>c :: unit client.
     session Map.empty 1
        \<lparr>connect = ConnectOk, getCurrentNet = Inr 1,
         version = Inr [''fnodjsonrpcapi'' \<mapsto> \<lparr>Major = 5, Minor = 0, Patch = 0\<rparr>]\<rparr>
        [Notify (OnBlockDisconnected [1]) IntakeAccepted,
         Notify (OnBlockDisconnected [2]) IntakeAccepted, HandlerDequeue] = Next c \<and>
     general_stream c =
       ([Some (blockDisconnected [1]), Some (blockDisconnected [2])],
        [Some (blockDisconnected [1])], False) \<and>
     (\<exists>c'. run Map.empty [HandlerDequeue] c = Next c' \<and>
           received (dequeueNotification c') =
             [Some (blockDisconnected [1]), Some (blockDisconnected [2])])"
proof -
  obtain c :: "unit client" where c: "session Map.empty 1
        \<lparr>connect = ConnectOk, getCurrentNet = Inr 1,
         version = Inr [''fnodjsonrpcapi'' \<mapsto> \<lparr>Major = 5, Minor = 0, Patch = 0\<rparr>]\<rparr>
        [Notify (OnBlockDisconnected [1]) IntakeAccepted,
         Notify (OnBlockDisconnected [2]) IntakeAccepted, HandlerDequeue] = Next c"
    and v: "general_stream c =
       ([Some (blockDisconnected [1]), Some (blockDisconnected [2])],
        [Some (blockDisconnected [1])], False)"
    and h: "\<exists>h. go_handler c = Some h \<and> notifications (qv h) = [Some (blockDisconnected [2])]"
    by (simp add: eval_defs)
  from delivery_fifo_until_quit [OF c] h v
  have "\<exists>c'. run Map.empty [HandlerDequeue] c = Next c' \<and>
           received (dequeueNotification c') =
             [Some (blockDisconnected [1]), Some (blockDisconnected [2])]"
    by (auto simp: general_stream_def)
  with c v show ?thesis by blast
qed

text \<open>
  The claim as stated fails: the voting loop accepts one \<open>winningTickets\<close> value,
  \<open>Stop\<close> is called, the loop takes the \<open>quit\<close> case and closes its output channel.
  The consumer has received nothing.
\<close>

theorem voting_queue_drops_buffered_on_quit:
  "map_outcome voting_stream
     (session Map.empty 1
        \<lparr>connect = ConnectOk, getCurrentNet = Inr 1,
         version = Inr [''fnodjsonrpcapi'' \<mapsto> \<lparr>Major = 5, Minor = 0, Patch = 0\<rparr>]\<rparr>
        [Notify (OnWinningTickets [1] 2 [[3]]) IntakeAccepted, CallStop, VotingQuit]) =
   (Next ([Some (winningTickets [1] 2 [[3]])], [], True) ::
      (unit iface list \<times> unit iface list \<times> bool) outcome)"
  by (simp add: eval_defs)

text \<open>
  Claim C2, as amended. In every state of a session in which \<open>quit\<close> is closed, a loop
  that still runs can take the \<open>quit\<close> case at once, whatever its buffer holds: it then
  closes its output channel without delivering any buffered value and ends. A queue
  whose loop is not running has its output channel closed already. So both output
  channels close after at most one step of each loop, with what the consumer has
  received left as it is; neither the buffer nor new notifications delay the closing.
\<close>

theorem quit_closes_without_drain:
  assumes "session D net srv acts = Next c" and "quit c"
  shows "(case go_handler c of
            Some h \<Rightarrow>
              step D HandlerQuit c =
                Next (c\<lparr>dequeueNotification := (dequeueNotification c)\<lparr>closed := True\<rparr>,
                        wg := wg c - 1, go_handler := None\<rparr>)
          | None \<Rightarrow> closed (dequeueNotification c)) \<and>
         (case go_handlerVoting c of
            Some q \<Rightarrow>
              step D VotingQuit c =
                Next (c\<lparr>dequeueVotingNotification :=
                          (dequeueVotingNotification c)\<lparr>closed := True\<rparr>,
                        wg := wg c - 1, go_handlerVoting := None\<rparr>)
          | None \<Rightarrow> closed (dequeueVotingNotification c)) \<and>
         (\<exists>c'. run D ((if go_handler c = None then [] else [HandlerQuit]) @
                      (if go_handlerVoting c = None then [] else [VotingQuit])) c = Next c' \<and>
               closed (dequeueNotification c') \<and> closed (dequeueVotingNotification c') \<and>
               received (dequeueNotification c') = received (dequeueNotification c) \<and>
               received (dequeueVotingNotification c') =
                 received (dequeueVotingNotification c) \<and>
               enqueueNotification c' = enqueueNotification c \<and>
               enqueueVotingNotification c' = enqueueVotingNotification c \<and>
               go_handler c' = None \<and> go_handlerVoting c' = None \<and> wg c' = 0)"
proof -
  note g = session_good [OF assms(1)]
  have ended: "closed (dequeueNotification c)" if "go_handler c = None"
    using g that assms(2) by (auto simp: good_def client_inv_def ended_inv_def)
  have endedV: "closed (dequeueVotingNotification c)" if "go_handlerVoting c = None"
    using g that assms(2) by (auto simp: good_def client_inv_def ended_inv_def)
  have hq: "step D HandlerQuit c =
                Next (c\<lparr>dequeueNotification := (dequeueNotification c)\<lparr>closed := True\<rparr>,
                        wg := wg c - 1, go_handler := None\<rparr>)"
    if h: "go_handler c = Some h" for h
  proof -
    from g h have "\<not> closed (dequeueNotification c)" "0 < wg c"
      by (auto simp: good_def client_inv_def queue_inv_def)
    from handler_step_RecvQuit [OF h assms(2) this] show ?thesis by simp
  qed
  have vq: "step D VotingQuit c' =
                Next (c'\<lparr>dequeueVotingNotification :=
                          (dequeueVotingNotification c')\<lparr>closed := True\<rparr>,
                        wg := wg c' - 1, go_handlerVoting := None\<rparr>)"
    if "good c'" "quit c'" and q: "go_handlerVoting c' = Some q" for q and c' :: "'a client"
  proof -
    from that have "\<not> closed (dequeueVotingNotification c')" "0 < wg c'"
      by (auto simp: good_def client_inv_def queue_inv_def)
    from handlerVoting_step_RecvQuit [OF q that(2) this] show ?thesis by simp
  qed
  have both: "\<exists>c'. run D ((if go_handler c = None then [] else [HandlerQuit]) @
                      (if go_handlerVoting c = None then [] else [VotingQuit])) c = Next c' \<and>
               closed (dequeueNotification c') \<and> closed (dequeueVotingNotification c') \<and>
               received (dequeueNotification c') = received (dequeueNotification c) \<and>
               received (dequeueVotingNotification c') =
                 received (dequeueVotingNotification c) \<and>
               enqueueNotification c' = enqueueNotification c \<and>
               enqueueVotingNotification c' = enqueueVotingNotification c \<and>
               go_handler c' = None \<and> go_handlerVoting c' = None \<and> wg c' = 0"
  proof (cases "go_handler c")
    case None
    note hn = None
    show ?thesis
    proof (cases "go_handlerVoting c")
      case None
      then show ?thesis using hn ended endedV g
        by (auto simp: good_def client_inv_def)
    next
      case (Some q)
      from vq [OF g assms(2) Some] show ?thesis using hn Some ended g
        by (auto simp: good_def client_inv_def)
    qed
  next
    case (Some h)
    let ?c1 = "c\<lparr>dequeueNotification := (dequeueNotification c)\<lparr>closed := True\<rparr>,
                        wg := wg c - 1, go_handler := None\<rparr>"
    note s1 = hq [OF Some]
    from good_step [OF g, of D HandlerQuit] s1 have g1: "good ?c1" by simp
    have q1: "quit ?c1" using assms(2) by simp
    show ?thesis
    proof (cases "go_handlerVoting c")
      case None
      then show ?thesis using Some s1 endedV g
        by (auto simp: good_def client_inv_def)
    next
      case (Some q)
      then have "go_handlerVoting ?c1 = Some q" by simp
      from vq [OF g1 q1 this] show ?thesis using \<open>go_handler c = Some h\<close> Some s1 g
        by (auto simp: good_def client_inv_def)
    qed
  qed
  from ended endedV hq vq [OF g assms(2)] both show ?thesis
    by (simp split: option.splits)
qed

theorem quit_closes_without_drain_witness:
  "\<exists>c :: unit client.
     session Map.empty 1
        \<lparr>connect = ConnectOk, getCurrentNet = Inr 1,
         version = Inr [''fnodjsonrpcapi'' \<mapsto> \<lparr>Major = 5, Minor = 0, Patch = 0\<rparr>]\<rparr>
        [Notify (OnStakeDifficulty [1] 2 3) IntakeAccepted,
         Notify (OnWinningTickets [1] 2 [[4]]) IntakeAccepted, CallStop] = Next c \<and>
     quit c \<and>
     (\<exists>c'. run Map.empty [HandlerQuit, VotingQuit] c = Next c' \<and>
           general_stream c' = ([Some (stakeDifficulty [1] 2 3)], [], True) \<and>
           voting_stream c' = ([Some (winningTickets [1] 2 [[4]])], [], True))"
proof -
  obtain c :: "unit client" where c: "session Map.empty 1
        \<lparr>connect = ConnectOk, getCurrentNet = Inr 1,
         version = Inr [''fnodjsonrpcapi'' \<mapsto> \<lparr>Major = 5, Minor = 0, Patch = 0\<rparr>]\<rparr>
        [Notify (OnStakeDifficulty [1] 2 3) IntakeAccepted,
         Notify (OnWinningTickets [1] 2 [[4]]) IntakeAccepted, CallStop] = Next c"
    and q: "quit c"
    and h: "go_handler c \<noteq> None" "go_handlerVoting c \<noteq> None"
    and v: "general_stream c = ([Some (stakeDifficulty [1] 2 3)], [], False)"
       "voting_stream c = ([Some (winningTickets [1] 2 [[4]])], [], False)"
    by (simp add: eval_defs onStakeDifficulty_def)
  from quit_closes_without_drain [OF c q] h v
  have "\<exists>c'. run Map.empty [HandlerQuit, VotingQuit] c = Next c' \<and>
           general_stream c' = ([Some (stakeDifficulty [1] 2 3)], [], True) \<and>
           voting_stream c' = ([Some (winningTickets [1] 2 [[4]])], [], True)"
    by (auto simp: general_stream_def voting_stream_def)
  with c q show ?thesis by blast
qed

text \<open>
  The claim as stated fails: with two values in the buffer at the time of \<open>Stop\<close>, the
  loop of \<open>handler\<close> delivers the first, then takes the \<open>quit\<close> case and closes the
  output channel. The second value is never delivered.
\<close>

theorem general_queue_closes_before_drain:
  "map_outcome general_stream
     (session Map.empty 1
        \<lparr>connect = ConnectOk, getCurrentNet = Inr 1,
         version = Inr [''fnodjsonrpcapi'' \<mapsto> \<lparr>Major = 5, Minor = 0, Patch = 0\<rparr>]\<rparr>
        [Notify (OnBlockDisconnected [1]) IntakeAccepted,
         Notify (OnBlockDisconnected [2]) IntakeAccepted,
         CallStop, HandlerDequeue, HandlerQuit]) =
   (Next ([Some (blockDisconnected [1]), Some (blockDisconnected [2])],
          [Some (blockDisconnected [1])], True) ::
      (unit iface list \<times> unit iface list \<times> bool) outcome)"
  by (simp add: eval_defs)



end
